theory Spec2Isabelle
  imports
    Main
    "HOL-Library.AList"
    "HOL-Library.Sublist"
    "HOL-Library.Char_ord"
    "HOL-Library.List_Lexorder"
    "HOL-Library.Multiset"
begin

section \<open>Data model\<close>

text \<open>
  A pandas cell. \<open>Null\<close> stands for every value \<open>pd.isna\<close> accepts (None, NaN, NaT);
  \<open>Str\<close> is a Python string over code points below 256; \<open>Num\<close> is an integer
  (floating-point cells are outside the model); \<open>Date\<close> is a \<open>pd.Timestamp\<close>, in
  nanoseconds since the epoch, without the bounds of pandas' 64-bit range.
\<close>

datatype cell = Null | Str string | Num int | Date int

text \<open>The exceptions of the code modelled. \<open>KeyError\<close> carries the missing label;
  \<open>KeyError_labels\<close> is the KeyError that \<open>dropna\<close> raises, with the list of all the labels of
  its subset that the frame does not have.\<close>

datatype error =
  KeyError string | KeyError_labels "string list" | IndexError | TypeError | AttributeError

text \<open>
  A row as \<open>iterrows\<close> hands it out: a Series, from column label to cell. A frame has
  its column labels and its rows; the index is the default \<open>RangeIndex\<close>, so a row's
  index label is its position.
\<close>

type_synonym series = "string \<rightharpoonup> cell"

record dataframe =
  columns :: "string list"
  rows :: "series list"

text \<open>\<open>pd.isna\<close> on the result of \<open>row.get(c)\<close>: an absent label reads as None.\<close>

fun isna :: "cell option \<Rightarrow> bool" where
  "isna None = True"
| "isna (Some Null) = True"
| "isna (Some _) = False"

text \<open>\<open>df[c] = v\<close> for a scalar \<open>v\<close>: the column is overwritten, or appended when new.\<close>

definition set_column :: "string \<Rightarrow> cell \<Rightarrow> dataframe \<Rightarrow> dataframe" where
  "set_column c v df =
     \<lparr>columns = (if c \<in> set (columns df) then columns df else columns df @ [c]),
      rows = map (\<lambda>r. r(c \<mapsto> v)) (rows df)\<rparr>"

section \<open>Python string methods\<close>

text \<open>
  The character classes of Python 3 on the code points below 256: \<open>str.isspace\<close>,
  \<open>str.isdigit\<close>, \<open>str.isupper\<close> and \<open>str.islower\<close> of a one-character string.
\<close>

definition is_space :: "char \<Rightarrow> bool" where
  "is_space c = (let n = (of_char c :: nat) in
     (9 \<le> n \<and> n \<le> 13) \<or> (28 \<le> n \<and> n \<le> 32) \<or> n = 133 \<or> n = 160)"

definition is_digit :: "char \<Rightarrow> bool" where
  "is_digit c = (let n = (of_char c :: nat) in
     (48 \<le> n \<and> n \<le> 57) \<or> n = 178 \<or> n = 179 \<or> n = 185)"

definition is_upper :: "char \<Rightarrow> bool" where
  "is_upper c = (let n = (of_char c :: nat) in
     (65 \<le> n \<and> n \<le> 90) \<or> (192 \<le> n \<and> n \<le> 214) \<or> (216 \<le> n \<and> n \<le> 222))"

definition is_lower :: "char \<Rightarrow> bool" where
  "is_lower c = (let n = (of_char c :: nat) in
     (97 \<le> n \<and> n \<le> 122) \<or> n = 170 \<or> n = 181 \<or> n = 186 \<or>
     (223 \<le> n \<and> n \<le> 246) \<or> (248 \<le> n \<and> n \<le> 255))"

text \<open>\<open>s.strip()\<close>: leading and trailing whitespace removed.\<close>

definition strip :: "string \<Rightarrow> string" where
  "strip s = rev (dropWhile is_space (rev (dropWhile is_space s)))"

text \<open>\<open>s.isupper()\<close>: at least one cased character, and no cased character that is not
  upper case.\<close>

definition isupper :: "string \<Rightarrow> bool" where
  "isupper s = (list_ex is_upper s \<and> \<not> list_ex is_lower s)"

text \<open>\<open>str(n)\<close> for an integer: its decimal digits, with a minus sign when negative.\<close>

definition digit_char :: "nat \<Rightarrow> char" where
  "digit_char d = char_of (48 + d)"

function str_nat :: "nat \<Rightarrow> string" where
  "str_nat n = (if n < 10 then [digit_char n] else str_nat (n div 10) @ [digit_char (n mod 10)])"
  by pat_completeness auto
termination
  by (relation "measure id") auto

definition str_int :: "int \<Rightarrow> string" where
  "str_int i = (if i < 0 then CHR ''-'' # str_nat (nat (- i)) else str_nat (nat i))"

text \<open>
  \<open>str(v)\<close> of a cell. The text of a \<open>pd.Timestamp\<close> is pandas' own rendering and is
  taken as the parameter \<open>ts_str\<close>. The code applies \<open>str\<close> to a null cell only through
  \<open>astype(str)\<close>, which writes nan for NaN.
\<close>

fun py_str :: "(int \<Rightarrow> string) \<Rightarrow> cell \<Rightarrow> string" where
  "py_str ts_str (Str s) = s"
| "py_str ts_str (Num n) = str_int n"
| "py_str ts_str (Date t) = ts_str t"
| "py_str ts_str Null = ''nan''"

section \<open>Hierarchy detection (planning_parser.py)\<close>

text \<open>
  The body of the loop of \<open>_detect_structure\<close> on one row, with \<open>current_bloc\<close> and
  \<open>current_phase\<close> passed in and out. The index \<open>task_str[0]\<close> of the phase test
  raises IndexError on the empty string; Python evaluates it whenever the block
  test has failed.
\<close>

definition detect_row ::
  "(int \<Rightarrow> string) \<Rightarrow> cell \<times> cell \<Rightarrow> series \<Rightarrow> error + (series \<times> cell \<times> cell)" where
  "detect_row ts_str st row =
     (case st of (current_bloc, current_phase) \<Rightarrow>
      (case row ''task'' of
         None \<Rightarrow> Inr (row, current_bloc, current_phase)
       | Some Null \<Rightarrow> Inr (row, current_bloc, current_phase)
       | Some c \<Rightarrow>
           (let task_str = strip (py_str ts_str c) in
            if isupper task_str \<and> isna (row ''start'') then
              Inr (row(''level'' \<mapsto> Str ''bloc'', ''bloc'' \<mapsto> Str task_str),
                   Str task_str, Null)
            else if task_str = [] then Inl IndexError
            else if (is_digit (hd task_str) \<or> prefix ''-'' task_str) \<and> isna (row ''start'') then
              Inr (row(''level'' \<mapsto> Str ''phase'', ''phase'' \<mapsto> Str task_str,
                       ''bloc'' \<mapsto> current_bloc),
                   current_bloc, Str task_str)
            else
              Inr (row(''level'' \<mapsto> Str ''tache'', ''bloc'' \<mapsto> current_bloc,
                       ''phase'' \<mapsto> current_phase),
                   current_bloc, current_phase))))"

text \<open>The loop over \<open>iterrows()\<close>: the first exception ends it.\<close>

fun detect_loop ::
  "(int \<Rightarrow> string) \<Rightarrow> cell \<times> cell \<Rightarrow> series list \<Rightarrow> error + series list" where
  "detect_loop ts_str st [] = Inr []"
| "detect_loop ts_str st (r # rs) =
     (case detect_row ts_str st r of
        Inl e \<Rightarrow> Inl e
      | Inr (r', st') \<Rightarrow>
          (case detect_loop ts_str st' rs of
             Inl e \<Rightarrow> Inl e
           | Inr rs' \<Rightarrow> Inr (r' # rs')))"

text \<open>\<open>_detect_structure\<close>: the three columns are initialised on every row, then the
  rows are classified from the first to the last.\<close>

definition init_columns :: "dataframe \<Rightarrow> dataframe" where
  "init_columns df =
     set_column ''phase'' Null (set_column ''bloc'' Null (set_column ''level'' (Str ''tache'') df))"

definition detect_structure :: "(int \<Rightarrow> string) \<Rightarrow> dataframe \<Rightarrow> error + dataframe" where
  "detect_structure ts_str df =
     (let df_result = init_columns df in
      case detect_loop ts_str (Null, Null) (rows df_result) of
        Inl e \<Rightarrow> Inl e
      | Inr rs \<Rightarrow> Inr (df_result\<lparr>rows := rs\<rparr>))"

section \<open>Column mapping, cleaning and the parse (planning_parser.py)\<close>

text \<open>\<open>name in col\<close> on strings: \<open>name\<close> occurs in \<open>col\<close> as a substring.\<close>

fun contains :: "string \<Rightarrow> string \<Rightarrow> bool" where
  "contains name [] = (name = [])"
| "contains name (c # cs) = (prefix name (c # cs) \<or> contains name cs)"

text \<open>\<open>self.column_mapping\<close>, in the order of the dictionary.\<close>

definition column_mapping :: "(string \<times> string list) list" where
  "column_mapping =
     [(''bloc'', [''bloc'', ''block'', ''lot'', ''secteur'']),
      (''phase'', [''phase'', ''etape'', ''step'']),
      (''task'', [''tache'', ''t'' @ [CHR 0xE2] @ ''che'', ''task'', ''activite'',
                  ''activit'' @ [CHR 0xE9]]),
      (''start'', [''debut'', ''d'' @ [CHR 0xE9] @ ''but'', ''start'', ''date_debut'',
                   ''date d'' @ [CHR 0xE9] @ ''but'']),
      (''end'', [''fin'', ''end'', ''date_fin'', ''date fin'']),
      (''duration'', [''duree'', ''dur'' @ [CHR 0xE9] @ ''e'', ''duration'', ''jours'']),
      (''progress'', [''avancement'', ''progress'', ''%'', ''pourcent'']),
      (''status'', [''statut'', ''status'', ''etat'', [CHR 0xE9] @ ''tat'']),
      (''responsible'', [''responsable'', ''responsible'', ''pilote'']),
      (''value'', [''valeur'', ''value'', ''montant'', ''cout'', ''co'' @ [CHR 0xFB] @ ''t''])]"

text \<open>\<open>mapped_df[name] = df[col]\<close>: the cells of column \<open>col\<close> of \<open>df\<close>, row by row.\<close>

definition copy_column :: "dataframe \<Rightarrow> string \<Rightarrow> string \<Rightarrow> dataframe \<Rightarrow> dataframe" where
  "copy_column df col name mapped_df =
     \<lparr>columns = (if name \<in> set (columns mapped_df) then columns mapped_df
                 else columns mapped_df @ [name]),
      rows = map2 (\<lambda>m r. m(name := r col)) (rows mapped_df) (rows df)\<rparr>"

text \<open>\<open>_map_columns\<close>: for each standard name, the first column of \<open>df\<close> whose label
  contains one of its keywords is copied under that name.\<close>

definition map_columns :: "dataframe \<Rightarrow> dataframe" where
  "map_columns df =
     foldl (\<lambda>mapped_df (standard_name, possible_names).
              case List.find (\<lambda>col. list_ex (\<lambda>name. contains name col) possible_names)
                     (columns df) of
                None \<Rightarrow> mapped_df
              | Some col \<Rightarrow> copy_column df col standard_name mapped_df)
           df column_mapping"

text \<open>\<open>df[c] = f(df[c])\<close> for a function of the whole column.\<close>

definition convert_column :: "string \<Rightarrow> (cell list \<Rightarrow> cell list) \<Rightarrow> dataframe \<Rightarrow> dataframe" where
  "convert_column c f df =
     (if c \<in> set (columns df)
      then df\<lparr>rows := map2 (\<lambda>r v. r(c \<mapsto> v)) (rows df)
                          (f (map (\<lambda>r. case r c of None \<Rightarrow> Null | Some v \<Rightarrow> v) (rows df)))\<rparr>
      else df)"

definition ns_per_day :: int where
  "ns_per_day = 86400000000000"

text \<open>\<open>(end - start).days\<close> of two Timestamps: whole days, rounded down.\<close>

definition days_between :: "int \<Rightarrow> int \<Rightarrow> int" where
  "days_between start end = (end - start) div ns_per_day"

text \<open>The duration back-fill on one row of the mask: the day count of \<open>end - start\<close>, NaN
  when one of them is NaT.\<close>

definition backfill_duration :: "series \<Rightarrow> series" where
  "backfill_duration r =
     (if isna (r ''duration'') then
        (case (r ''start'', r ''end'') of
           (Some (Date s), Some (Date e)) \<Rightarrow> r(''duration'' \<mapsto> Num (days_between s e))
         | _ \<Rightarrow> r(''duration'' \<mapsto> Null))
      else r)"

text \<open>
  \<open>df.rename(columns={old: new})\<close> on the labels and on a row. Where the frame has both
  the old and the new label, pandas keeps two columns under the new label and
  \<open>row[new]\<close> is no longer a cell: such a frame has no representation here, and the
  result is None.
\<close>

definition rename_label :: "string \<Rightarrow> string \<Rightarrow> string \<Rightarrow> string" where
  "rename_label old new c = (if c = old then new else c)"

definition rename_cell :: "string \<Rightarrow> string \<Rightarrow> series \<Rightarrow> series" where
  "rename_cell old new r = (case r old of None \<Rightarrow> r | Some v \<Rightarrow> (r(old := None))(new \<mapsto> v))"

definition rename_column :: "string \<Rightarrow> string \<Rightarrow> dataframe option \<Rightarrow> dataframe option" where
  "rename_column old new frame =
     (case frame of
        None \<Rightarrow> None
      | Some df \<Rightarrow>
          if old \<in> set (columns df) \<and> new \<in> set (columns df) then None
          else Some \<lparr>columns = map (rename_label old new) (columns df),
                     rows = map (rename_cell old new) (rows df)\<rparr>)"

text \<open>
  \<open>_clean_data\<close>. \<open>pd.to_datetime(column, errors='coerce')\<close> and
  \<open>pd.to_numeric(value, errors='coerce')\<close> are parameters: the first maps a column to
  Timestamps and NaT, one for each cell, the second a cell to a number or NaN. The
  back-fill reads \<open>df_clean['duration']\<close> whenever both date columns exist, which raises
  KeyError when the frame has no such column. The result is None for a cleaned frame
  with two columns under one label.
\<close>

definition clean_data ::
  "(int \<Rightarrow> string) \<Rightarrow> (cell list \<Rightarrow> cell list) \<Rightarrow> (cell \<Rightarrow> cell) \<Rightarrow> dataframe \<Rightarrow>
   error + dataframe option" where
  "clean_data ts_str to_datetime to_numeric df =
     (let df1 = convert_column ''end'' to_datetime (convert_column ''start'' to_datetime df) in
      if ''start'' \<in> set (columns df1) \<and> ''end'' \<in> set (columns df1) \<and>
         ''duration'' \<notin> set (columns df1)
      then Inl (KeyError ''duration'')
      else
        (let df2 = (if ''start'' \<in> set (columns df1) \<and> ''end'' \<in> set (columns df1)
                    then df1\<lparr>rows := map backfill_duration (rows df1)\<rparr> else df1);
             df3 = convert_column ''progress''
                     (map (\<lambda>c. to_numeric (Str (filter (\<lambda>ch. ch \<noteq> CHR ''%'') (py_str ts_str c)))))
                     df2;
             df4 = convert_column ''value'' (map to_numeric) df3
         in Inr (rename_column ''end'' ''end_date''
                  (rename_column ''start'' ''start_date''
                    (rename_column ''task'' ''task_name'' (Some df4))))))"

datatype parse_failure = Erreur_parsing error

text \<open>
  \<open>parse_excel\<close> from the frame that \<open>pd.read_excel\<close> returned, its labels already
  stripped and lower-cased (lines 39 to 42): column mapping, hierarchy detection and
  cleaning, every exception re-raised as \<open>Exception("Erreur parsing: ...")\<close>. As for
  \<open>_clean_data\<close>, the result None is a frame with two columns under one label.
\<close>

definition parse_excel ::
  "(int \<Rightarrow> string) \<Rightarrow> (cell list \<Rightarrow> cell list) \<Rightarrow> (cell \<Rightarrow> cell) \<Rightarrow> dataframe \<Rightarrow>
   parse_failure + dataframe option" where
  "parse_excel ts_str to_datetime to_numeric df =
     (case detect_structure ts_str (map_columns df) of
        Inl e \<Rightarrow> Inl (Erreur_parsing e)
      | Inr df_structured \<Rightarrow>
          (case clean_data ts_str to_datetime to_numeric df_structured of
             Inl e \<Rightarrow> Inl (Erreur_parsing e)
           | Inr df_clean \<Rightarrow> Inr df_clean))"

section \<open>Validation (validators.py)\<close>

text \<open>
  An alert. The message is an f-string; it is kept as its parts, the literal text and
  the formatted values, in order. \<open>row\<close> is the index label of the row, None for a
  finding on the whole dataset.
\<close>

datatype fragment = Lit string | Fmt cell

record alert =
  severity :: string
  message :: "fragment list"
  row :: "nat option"

text \<open>Sequencing of steps that may raise.\<close>

definition and_then :: "error + 'a \<Rightarrow> ('a \<Rightarrow> error + 'b) \<Rightarrow> error + 'b" where
  "and_then m f = (case m of Inl e \<Rightarrow> Inl e | Inr x \<Rightarrow> f x)"

text \<open>A loop that appends the alerts of each turn; an exception in a turn ends it.\<close>

fun collect :: "('a \<Rightarrow> error + alert list) \<Rightarrow> 'a list \<Rightarrow> error + alert list" where
  "collect f [] = Inr []"
| "collect f (x # xs) =
     and_then (f x) (\<lambda>first. and_then (collect f xs) (\<lambda>others. Inr (first @ others)))"

text \<open>\<open>row.get(c, default)\<close>, and \<open>row[c]\<close>, which raises KeyError on an absent label.\<close>

definition get_or :: "series \<Rightarrow> string \<Rightarrow> cell \<Rightarrow> cell" where
  "get_or r c d = (case r c of None \<Rightarrow> d | Some v \<Rightarrow> v)"

definition getitem :: "series \<Rightarrow> string \<Rightarrow> error + cell" where
  "getitem r c = (case r c of None \<Rightarrow> Inl (KeyError c) | Some v \<Rightarrow> Inr v)"

text \<open>\<open>df[df['level'] == 'tache']\<close>: the Task rows with their index labels.\<close>

definition tasks_of :: "dataframe \<Rightarrow> error + (nat \<times> series) list" where
  "tasks_of df =
     (if ''level'' \<in> set (columns df)
      then Inr (filter (\<lambda>(idx, r). r ''level'' = Some (Str ''tache'')) (enumerate 0 (rows df)))
      else Inl (KeyError ''level''))"

text \<open>\<open>tasks.dropna(subset=...)\<close>: KeyError with the labels of the subset that the frame
  does not have, if any, else the rows with no null in the subset.\<close>

definition dropna :: "string list \<Rightarrow> dataframe \<Rightarrow> (nat \<times> series) list \<Rightarrow> error + (nat \<times> series) list" where
  "dropna labels df tasks =
     (let missing = filter (\<lambda>c. c \<notin> set (columns df)) labels in
      if missing = []
      then Inr (filter (\<lambda>(idx, r). list_all (\<lambda>c. \<not> isna (r c)) labels) tasks)
      else Inl (KeyError_labels missing))"

text \<open>Comparison of two cells, \<open>a < b\<close>: numbers, Timestamps and strings compare within
  their kind; across kinds Python raises TypeError.\<close>

fun cell_less :: "cell \<Rightarrow> cell \<Rightarrow> error + bool" where
  "cell_less (Num a) (Num b) = Inr (a < b)"
| "cell_less (Date a) (Date b) = Inr (a < b)"
| "cell_less (Str a) (Str b) = Inr (a < b)"
| "cell_less _ _ = Inl TypeError"

text \<open>\<open>(end - start).days\<close>: a Timedelta for two Timestamps; an int has no \<open>days\<close>; any
  other subtraction raises TypeError.\<close>

fun sub_days :: "cell \<Rightarrow> cell \<Rightarrow> error + int" where
  "sub_days (Date e) (Date s) = Inr (days_between s e)"
| "sub_days (Num e) (Num s) = Inl AttributeError"
| "sub_days _ _ = Inl TypeError"

subsection \<open>The eight rules\<close>

definition check_missing_dates :: "dataframe \<Rightarrow> error + alert list" where
  "check_missing_dates df =
     and_then (tasks_of df) (\<lambda>tasks.
       Inr (concat (map (\<lambda>(idx, r).
         (if isna (r ''start_date'') then
            [\<lparr>severity = ''error'',
              message = [Lit (''Date d'' @ [CHR 0xE9] @ ''but manquante: ''),
                         Fmt (get_or r ''task_name'' (Str ''N/A''))],
              row = Some idx\<rparr>]
          else []) @
         (if isna (r ''end_date'') then
            [\<lparr>severity = ''error'',
              message = [Lit ''Date fin manquante: '', Fmt (get_or r ''task_name'' (Str ''N/A''))],
              row = Some idx\<rparr>]
          else [])) tasks)))"

definition duration_alert :: "nat \<times> series \<Rightarrow> error + alert list" where
  "duration_alert x =
     (case x of (idx, r) \<Rightarrow>
      and_then (getitem r ''end_date'') (\<lambda>e.
      and_then (getitem r ''start_date'') (\<lambda>s.
      and_then (sub_days e s) (\<lambda>calc_duration.
      and_then (getitem r ''duration'') (\<lambda>stated_duration.
        case stated_duration of
          Num d \<Rightarrow>
            Inr (if \<bar>calc_duration - d\<bar> > 1 then
                   [\<lparr>severity = ''warning'',
                     message = [Lit (''Incoh'' @ [CHR 0xE9] @ ''rence dur'' @ [CHR 0xE9] @ ''e: ''),
                                Fmt (get_or r ''task_name'' Null),
                                Lit ('' (calcul'' @ [CHR 0xE9] @ '': ''), Fmt (Num calc_duration),
                                Lit (''j, indiqu'' @ [CHR 0xE9] @ '': ''), Fmt stated_duration,
                                Lit ''j)''],
                     row = Some idx\<rparr>]
                 else [])
        | _ \<Rightarrow> Inl TypeError)))))"

definition check_duration_coherence :: "dataframe \<Rightarrow> error + alert list" where
  "check_duration_coherence df =
     and_then (tasks_of df) (\<lambda>tasks.
     and_then (dropna [''start_date'', ''end_date'', ''duration''] df tasks) (\<lambda>tasks.
       collect duration_alert tasks))"

definition progress_alert :: "nat \<times> series \<Rightarrow> error + alert list" where
  "progress_alert x =
     (case x of (idx, r) \<Rightarrow>
      and_then (getitem r ''progress'') (\<lambda>progress.
        case progress of
          Num p \<Rightarrow>
            Inr (if p < 0 \<or> p > 100 then
                   [\<lparr>severity = ''error'',
                     message = [Lit ''Avancement invalide ('', Fmt progress, Lit ''%): '',
                                Fmt (get_or r ''task_name'' Null)],
                     row = Some idx\<rparr>]
                 else [])
        | _ \<Rightarrow> Inl TypeError))"

definition check_progress_range :: "dataframe \<Rightarrow> error + alert list" where
  "check_progress_range df =
     and_then (tasks_of df) (\<lambda>tasks.
     and_then (dropna [''progress''] df tasks) (\<lambda>tasks.
       collect progress_alert tasks))"

definition date_order_alert :: "nat \<times> series \<Rightarrow> error + alert list" where
  "date_order_alert x =
     (case x of (idx, r) \<Rightarrow>
      and_then (getitem r ''start_date'') (\<lambda>s.
      and_then (getitem r ''end_date'') (\<lambda>e.
      and_then (cell_less s e) (\<lambda>lt.
        Inr (if \<not> lt then
               [\<lparr>severity = ''error'',
                 message = [Lit (''Date fin avant date d'' @ [CHR 0xE9] @ ''but: ''),
                            Fmt (get_or r ''task_name'' Null)],
                 row = Some idx\<rparr>]
             else [])))))"

definition check_date_order :: "dataframe \<Rightarrow> error + alert list" where
  "check_date_order df =
     and_then (tasks_of df) (\<lambda>tasks.
     and_then (dropna [''start_date'', ''end_date''] df tasks) (\<lambda>tasks.
       collect date_order_alert tasks))"

definition check_orphan_tasks :: "dataframe \<Rightarrow> error + alert list" where
  "check_orphan_tasks df =
     and_then (tasks_of df) (\<lambda>tasks.
       Inr (concat (map (\<lambda>(idx, r).
         (if isna (r ''bloc'') then
            [\<lparr>severity = ''warning'',
              message = [Lit (''T'' @ [CHR 0xE2] @ ''che sans BLOC: ''),
                         Fmt (get_or r ''task_name'' Null)],
              row = Some idx\<rparr>]
          else []) @
         (if isna (r ''phase'') then
            [\<lparr>severity = ''info'',
              message = [Lit (''T'' @ [CHR 0xE2] @ ''che sans Phase: ''),
                         Fmt (get_or r ''task_name'' Null)],
              row = Some idx\<rparr>]
          else [])) tasks)))"

text \<open>\<open>Series.unique()\<close>: the distinct values in the order of their first appearance.\<close>

definition unique :: "'a list \<Rightarrow> 'a list" where
  "unique xs = rev (remdups (rev xs))"

text \<open>
  \<open>sort_values(c)\<close>, ascending, on rows whose \<open>c\<close> cell is not null. pandas sorts with
  numpy's \<open>argsort\<close> of kind quicksort, which returns the positions of the keys in
  ascending order of the keys and promises nothing on the order of equal keys. It is
  the parameter \<open>argsort\<close>, from the column of keys to the list of positions. Cells of
  different kinds cannot be compared: TypeError as soon as there are two rows.
\<close>

definition is_date :: "cell option \<Rightarrow> bool" where
  "is_date v = (case v of Some (Date _) \<Rightarrow> True | _ \<Rightarrow> False)"

definition is_num :: "cell option \<Rightarrow> bool" where
  "is_num v = (case v of Some (Num _) \<Rightarrow> True | _ \<Rightarrow> False)"

definition is_str :: "cell option \<Rightarrow> bool" where
  "is_str v = (case v of Some (Str _) \<Rightarrow> True | _ \<Rightarrow> False)"

definition sort_values ::
  "(cell list \<Rightarrow> nat list) \<Rightarrow> string \<Rightarrow> (nat \<times> series) list \<Rightarrow> error + (nat \<times> series) list" where
  "sort_values argsort c xs =
     (if list_all (\<lambda>(idx, r). is_date (r c)) xs \<or> list_all (\<lambda>(idx, r). is_num (r c)) xs \<or>
         list_all (\<lambda>(idx, r). is_str (r c)) xs
      then Inr (map (\<lambda>i. xs ! i) (argsort (map (\<lambda>(idx, r). get_or r c Null) xs)))
      else if length xs \<le> 1 then Inr xs
      else Inl TypeError)"

text \<open>One turn of the inner loop of \<open>_check_overlapping_tasks\<close>, on positions \<open>i\<close> and
  \<open>i + 1\<close> of the sorted group.\<close>

definition overlap_alert :: "(nat \<times> series) list \<Rightarrow> nat \<Rightarrow> error + alert list" where
  "overlap_alert phase_tasks i =
     (case (phase_tasks ! i, phase_tasks ! (i + 1)) of ((idx, current), (idx', next_task)) \<Rightarrow>
      and_then (getitem current ''end_date'') (\<lambda>e.
      and_then (getitem next_task ''start_date'') (\<lambda>s.
      and_then (cell_less s e) (\<lambda>over.
        if over then
          and_then (getitem current ''task_name'') (\<lambda>a.
          and_then (getitem next_task ''task_name'') (\<lambda>b.
            Inr [\<lparr>severity = ''info'',
                  message = [Lit ''Chevauchement: '', Fmt a, Lit '' et '', Fmt b],
                  row = Some idx\<rparr>]))
        else Inr []))))"

definition phase_overlaps ::
  "(cell list \<Rightarrow> nat list) \<Rightarrow> (nat \<times> series) list \<Rightarrow> cell \<Rightarrow> error + alert list" where
  "phase_overlaps argsort tasks phase =
     and_then (sort_values argsort ''start_date'' (filter (\<lambda>(idx, r). r ''phase'' = Some phase) tasks))
       (\<lambda>phase_tasks. collect (overlap_alert phase_tasks) [0 ..< length phase_tasks - 1])"

definition check_overlapping_tasks :: "(cell list \<Rightarrow> nat list) \<Rightarrow> dataframe \<Rightarrow> error + alert list" where
  "check_overlapping_tasks argsort df =
     and_then (tasks_of df) (\<lambda>tasks.
     and_then (dropna [''phase'', ''start_date'', ''end_date''] df tasks) (\<lambda>tasks.
       collect (phase_overlaps argsort tasks) (unique (map (\<lambda>(idx, r). get_or r ''phase'' Null) tasks))))"

definition check_missing_values :: "dataframe \<Rightarrow> error + alert list" where
  "check_missing_values df =
     and_then (tasks_of df) (\<lambda>tasks.
       if ''value'' \<in> set (columns df) then
         (let missing_count = length (filter (\<lambda>(idx, r). isna (r ''value'')) tasks) in
          Inr (if missing_count > 0 then
                 [\<lparr>severity = ''info'',
                   message = [Fmt (Num (int missing_count)),
                              Lit ('' t'' @ [CHR 0xE2] @ ''ches sans valeur financi'' @ [CHR 0xE8] @ ''re'')],
                   row = None\<rparr>]
               else []))
       else Inl (KeyError ''value''))"

text \<open>\<open>today\<close> is \<open>pd.Timestamp(datetime.now().date())\<close>, the midnight that began the day
  on which the rule runs: the rule reads the clock.\<close>

definition future_progress_alert :: "int \<Rightarrow> nat \<times> series \<Rightarrow> error + alert list" where
  "future_progress_alert today x =
     (case x of (idx, r) \<Rightarrow>
      and_then (getitem r ''start_date'') (\<lambda>s.
        case s of
          Date t \<Rightarrow>
            if t > today then
              and_then (getitem r ''progress'') (\<lambda>progress.
                case progress of
                  Num p \<Rightarrow>
                    Inr (if p > 0 then
                           [\<lparr>severity = ''warning'',
                             message = [Lit (''T'' @ [CHR 0xE2] @ ''che future avec avancement: ''),
                                        Fmt (get_or r ''task_name'' Null), Lit '' ('',
                                        Fmt progress, Lit ''%)''],
                             row = Some idx\<rparr>]
                         else [])
                | _ \<Rightarrow> Inl TypeError)
            else Inr []
        | _ \<Rightarrow> Inl TypeError))"

definition check_future_progress :: "int \<Rightarrow> dataframe \<Rightarrow> error + alert list" where
  "check_future_progress today df =
     and_then (tasks_of df) (\<lambda>tasks.
     and_then (dropna [''start_date'', ''progress''] df tasks) (\<lambda>tasks.
       collect (future_progress_alert today) tasks))"

subsection \<open>The engine and the summary\<close>

text \<open>\<open>self.rules\<close>, in the order of the constructor. The engine has two inputs besides
  the frame: the sort of pandas and the date of the day.\<close>

definition rules :: "(cell list \<Rightarrow> nat list) \<Rightarrow> int \<Rightarrow> (dataframe \<Rightarrow> error + alert list) list" where
  "rules argsort today =
     [check_missing_dates, check_duration_coherence, check_progress_range, check_date_order,
      check_orphan_tasks, check_overlapping_tasks argsort, check_missing_values,
      check_future_progress today]"

fun run_rules ::
  "(dataframe \<Rightarrow> error + alert list) list \<Rightarrow> dataframe \<Rightarrow> alert list \<Rightarrow> error + alert list" where
  "run_rules [] df alerts = Inr alerts"
| "run_rules (rule # rest) df alerts =
     and_then (rule df) (\<lambda>rule_alerts. run_rules rest df (alerts @ rule_alerts))"

definition validate :: "(cell list \<Rightarrow> nat list) \<Rightarrow> int \<Rightarrow> dataframe \<Rightarrow> error + alert list" where
  "validate argsort today df = run_rules (rules argsort today) df []"

text \<open>\<open>get_summary\<close>: the dictionary, in insertion order, as an association list.
  \<open>tally\<close> is the body of its loop.\<close>

definition tally :: "(string \<times> int) list \<Rightarrow> alert \<Rightarrow> (string \<times> int) list" where
  "tally summary a =
     AList.update (severity a)
       ((case map_of summary (severity a) of None \<Rightarrow> 0 | Some n \<Rightarrow> n) + 1) summary"

definition get_summary :: "alert list \<Rightarrow> (string \<times> int) list" where
  "get_summary alerts =
     foldl tally
       [(''error'', 0), (''warning'', 0), (''info'', 0), (''total'', int (length alerts))] alerts"

section \<open>What the detector's output is measured against\<close>

text \<open>A row's classification, read from its \<open>level\<close> cell.\<close>

definition level_is :: "string \<Rightarrow> series \<Rightarrow> bool" where
  "level_is l r = (r ''level'' = Some (Str l))"

text \<open>A row's label: its text, stripped; null when the row has no text.\<close>

definition label :: "(int \<Rightarrow> string) \<Rightarrow> series \<Rightarrow> cell" where
  "label ts_str r =
     (case r ''task'' of
        None \<Rightarrow> Null
      | Some Null \<Rightarrow> Null
      | Some c \<Rightarrow> Str (strip (py_str ts_str c)))"

text \<open>The label of the nearest Block row among the rows \<open>before\<close> (in document order),
  or null.\<close>

definition nearest_block :: "(int \<Rightarrow> string) \<Rightarrow> series list \<Rightarrow> cell" where
  "nearest_block ts_str before =
     (case List.find (level_is ''bloc'') (rev before) of
        None \<Rightarrow> Null
      | Some b \<Rightarrow> label ts_str b)"

text \<open>The label of the nearest Phase row among the rows that follow the nearest Block
  row, or null.\<close>

definition nearest_phase :: "(int \<Rightarrow> string) \<Rightarrow> series list \<Rightarrow> cell" where
  "nearest_phase ts_str before =
     (case List.find (level_is ''phase'')
             (takeWhile (\<lambda>r. \<not> level_is ''bloc'' r) (rev before)) of
        None \<Rightarrow> Null
      | Some p \<Rightarrow> label ts_str p)"

text \<open>A row as the initialisation of \<open>_detect_structure\<close> leaves it.\<close>

definition reset_row :: "series \<Rightarrow> series" where
  "reset_row r = r(''level'' \<mapsto> Str ''tache'', ''bloc'' \<mapsto> Null, ''phase'' \<mapsto> Null)"

definition fresh :: "series \<Rightarrow> bool" where
  "fresh r = (r ''level'' = Some (Str ''tache'') \<and> r ''bloc'' = Some Null \<and> r ''phase'' = Some Null)"

text \<open>The four ways the loop leaves an initialised row \<open>r\<close>, given the rows \<open>before\<close>
  it in the output: untouched (no text), Block, Phase, Task.\<close>

definition classified :: "(int \<Rightarrow> string) \<Rightarrow> series list \<Rightarrow> series \<Rightarrow> series \<Rightarrow> bool" where
  "classified ts before r r1 =
     ((isna (r ''task'') \<and> r1 = r)
    \<or> (\<not> isna (r ''task'') \<and> r1 = r(''level'' \<mapsto> Str ''bloc'', ''bloc'' \<mapsto> label ts r))
    \<or> (\<not> isna (r ''task'') \<and>
         r1 = r(''level'' \<mapsto> Str ''phase'', ''phase'' \<mapsto> label ts r,
                ''bloc'' \<mapsto> nearest_block ts before))
    \<or> (\<not> isna (r ''task'') \<and>
         r1 = r(''level'' \<mapsto> Str ''tache'', ''bloc'' \<mapsto> nearest_block ts before,
                ''phase'' \<mapsto> nearest_phase ts before)))"

text \<open>A row of the mapped input with arbitrary contents (or none) in its \<open>level\<close>,
  \<open>bloc\<close> and \<open>phase\<close> cells.\<close>

definition overwrite :: "series \<Rightarrow> cell option \<times> cell option \<times> cell option \<Rightarrow> series" where
  "overwrite r v = (case v of (l, b, p) \<Rightarrow> r(''level'' := l, ''bloc'' := b, ''phase'' := p))"

section \<open>What the rules' output is measured against\<close>

text \<open>The integer of a Timestamp or number cell.\<close>

definition int_key :: "series \<Rightarrow> string \<Rightarrow> int" where
  "int_key r c = (case r c of Some (Date t) \<Rightarrow> t | Some (Num n) \<Rightarrow> n | _ \<Rightarrow> 0)"

text \<open>The warning of the duration rule for the row \<open>r\<close> at index \<open>idx\<close>, with computed
  duration \<open>calc\<close> and stated duration \<open>d\<close>.\<close>

definition duration_warning :: "nat \<Rightarrow> series \<Rightarrow> int \<Rightarrow> int \<Rightarrow> alert" where
  "duration_warning idx r calc d =
     \<lparr>severity = ''warning'',
      message = [Lit (''Incoh'' @ [CHR 0xE9] @ ''rence dur'' @ [CHR 0xE9] @ ''e: ''),
                 Fmt (get_or r ''task_name'' Null),
                 Lit ('' (calcul'' @ [CHR 0xE9] @ '': ''), Fmt (Num calc),
                 Lit (''j, indiqu'' @ [CHR 0xE9] @ '': ''), Fmt (Num d),
                 Lit ''j)''],
      row = Some idx\<rparr>"

text \<open>
  What numpy promises of \<open>argsort\<close> on a column of Timestamps \<open>ts\<close>: the result holds every
  position once, and the keys read in that order ascend.
\<close>

definition sorts_dates :: "(cell list \<Rightarrow> nat list) \<Rightarrow> int list \<Rightarrow> bool" where
  "sorts_dates argsort ts =
     (mset (argsort (map Date ts)) = mset [0 ..< length ts] \<and>
      sorted (map (\<lambda>i. ts ! i) (argsort (map Date ts))))"

text \<open>
  The overlap rule in words: the Task rows with phase and both dates present, grouped
  by phase in the order in which the phases first appear, each group sorted by start
  date; one info alert for each pair of neighbours whose first ends after the second
  starts. \<open>by_start\<close> is the sorted order of a group in which no two rows start at the
  same time.
\<close>

definition overlap_candidates :: "dataframe \<Rightarrow> (nat \<times> series) list" where
  "overlap_candidates df =
     filter (\<lambda>(idx, r). level_is ''tache'' r \<and> \<not> isna (r ''phase'') \<and>
                         \<not> isna (r ''start_date'') \<and> \<not> isna (r ''end_date''))
       (enumerate 0 (rows df))"

definition phases_of :: "dataframe \<Rightarrow> cell list" where
  "phases_of df = unique (map (\<lambda>(idx, r). get_or r ''phase'' Null) (overlap_candidates df))"

definition phase_group :: "dataframe \<Rightarrow> cell \<Rightarrow> (nat \<times> series) list" where
  "phase_group df ph = filter (\<lambda>(idx, r). r ''phase'' = Some ph) (overlap_candidates df)"

definition start_of :: "nat \<times> series \<Rightarrow> int" where
  "start_of x = (case x of (idx, r) \<Rightarrow> int_key r ''start_date'')"

definition by_start :: "(nat \<times> series) list \<Rightarrow> (nat \<times> series) list" where
  "by_start g = sort_key start_of g"

definition adjacent_pairs :: "'a list \<Rightarrow> ('a \<times> 'a) list" where
  "adjacent_pairs xs = zip xs (tl xs)"

definition overlapping :: "(nat \<times> series) \<times> (nat \<times> series) \<Rightarrow> bool" where
  "overlapping p =
     (case p of ((i, a), (j, b)) \<Rightarrow> int_key b ''start_date'' < int_key a ''end_date'')"

definition overlap_info :: "(nat \<times> series) \<times> (nat \<times> series) \<Rightarrow> alert" where
  "overlap_info p =
     (case p of ((i, a), (j, b)) \<Rightarrow>
        \<lparr>severity = ''info'',
         message = [Lit ''Chevauchement: '', Fmt (get_or a ''task_name'' Null), Lit '' et '',
                    Fmt (get_or b ''task_name'' Null)],
         row = Some i\<rparr>)"

definition overlap_alerts :: "dataframe \<Rightarrow> alert list" where
  "overlap_alerts df =
     concat (map (\<lambda>ph. map overlap_info
                          (filter overlapping (adjacent_pairs (by_start (phase_group df ph)))))
                 (phases_of df))"

text \<open>The number of alerts of severity \<open>s\<close>.\<close>

definition count_severity :: "string \<Rightarrow> alert list \<Rightarrow> int" where
  "count_severity s alerts = int (length (filter (\<lambda>a. severity a = s) alerts))"

section \<open>Example frames\<close>

text \<open>No example has a Timestamp in its text column, so its rendering is left empty.\<close>

definition ts_unused :: "int \<Rightarrow> string" where
  "ts_unused t = []"

text \<open>The sequence \<open>[BLOCK "A", PHASE "1", TASK "x"]\<close>.\<close>

definition abx :: dataframe where
  "abx = \<lparr>columns = [''task'', ''start''],
          rows = [[''task'' \<mapsto> Str ''A'', ''start'' \<mapsto> Null],
                  [''task'' \<mapsto> Str ''1'', ''start'' \<mapsto> Null],
                  [''task'' \<mapsto> Str ''x'', ''start'' \<mapsto> Null]]\<rparr>"

definition abx_out :: dataframe where
  "abx_out = projr (detect_structure ts_unused abx)"

text \<open>A block header followed by a row with an empty text cell.\<close>

definition a_then_null :: dataframe where
  "a_then_null = \<lparr>columns = [''task''],
          rows = [[''task'' \<mapsto> Str ''A''], [''task'' \<mapsto> Null]]\<rparr>"

definition a_then_null_out :: dataframe where
  "a_then_null_out = projr (detect_structure ts_unused a_then_null)"

text \<open>Contents for the \<open>level\<close>, \<open>bloc\<close> and \<open>phase\<close> cells of three input rows.\<close>

definition stale_cells :: "(cell option \<times> cell option \<times> cell option) list" where
  "stale_cells =
     [(Some (Str ''phase''), Some (Str ''OLD''), Some (Str ''0 - old'')),
      (Some (Str ''niveau''), None, Some (Num 7)),
      (None, Some (Str ''B''), None)]"

text \<open>An input table with a text column and two date columns, and no duration column.\<close>

definition debut_fin :: dataframe where
  "debut_fin = \<lparr>columns = [''tache'', ''debut'', ''fin''],
      rows = [[''tache'' \<mapsto> Str ''Excavation'', ''debut'' \<mapsto> Str ''2024-01-01'',
               ''fin'' \<mapsto> Str ''2024-01-06'']]\<rparr>"

text \<open>A conversion that coerces every cell to null.\<close>

definition nothing_parses :: "cell \<Rightarrow> cell" where
  "nothing_parses c = Null"

text \<open>A sort for the examples: the positions in ascending order of the keys, equal keys
  in their order.\<close>

definition cell_int :: "cell \<Rightarrow> int" where
  "cell_int c = (case c of Date t \<Rightarrow> t | Num n \<Rightarrow> n | _ \<Rightarrow> 0)"

definition stable_argsort :: "cell list \<Rightarrow> nat list" where
  "stable_argsort ks = map fst (sort_key (\<lambda>(i, k). cell_int k) (enumerate 0 ks))"

text \<open>An alert of severity \<open>s\<close>.\<close>

definition sev :: "string \<Rightarrow> alert" where
  "sev s = \<lparr>severity = s, message = [], row = None\<rparr>"

text \<open>Midnight of the day \<open>d\<close> days after 1970-01-01; 2024-01-01 is day 19723.\<close>

definition midnight :: "int \<Rightarrow> cell" where
  "midnight d = Date (d * ns_per_day)"

text \<open>A Task row of a normalized frame, in block B, with progress 50 and value 100.\<close>

definition task_row :: "string \<Rightarrow> string \<Rightarrow> int \<Rightarrow> int \<Rightarrow> cell \<Rightarrow> series" where
  "task_row name ph s e d =
     [''level'' \<mapsto> Str ''tache'', ''task_name'' \<mapsto> Str name, ''bloc'' \<mapsto> Str ''B'',
      ''phase'' \<mapsto> Str ph, ''start_date'' \<mapsto> midnight s, ''end_date'' \<mapsto> midnight e,
      ''duration'' \<mapsto> d, ''progress'' \<mapsto> Num 50, ''value'' \<mapsto> Num 100]"

definition norm_columns :: "string list" where
  "norm_columns = [''level'', ''task_name'', ''bloc'', ''phase'', ''start_date'', ''end_date'',
      ''duration'', ''progress'', ''value'']"

text \<open>TaskA from January 1 to January 10 and TaskB from January 5 to January 15 of 2024,
  in the same phase.\<close>

definition two_tasks :: dataframe where
  "two_tasks = \<lparr>columns = norm_columns,
     rows = [task_row ''TaskA'' ''P'' 19723 19732 (Num 9),
             task_row ''TaskB'' ''P'' 19727 19737 (Num 10)]\<rparr>"

text \<open>TaskB and TaskC lie inside the span of TaskA; TaskC is not next to TaskA in the
  order of the start dates.\<close>

definition nested_tasks :: dataframe where
  "nested_tasks = \<lparr>columns = norm_columns,
     rows = [task_row ''TaskA'' ''P'' 19723 19753 (Num 30),
             task_row ''TaskB'' ''P'' 19727 19728 (Num 1),
             task_row ''TaskC'' ''P'' 19732 19734 (Num 2)]\<rparr>"

text \<open>Two tasks from January 1 to January 6 of 2024, with stated durations 4 and 3.\<close>

definition jan1_jan6 :: dataframe where
  "jan1_jan6 = \<lparr>columns = norm_columns,
     rows = [task_row ''Stated4'' ''P'' 19723 19728 (Num 4),
             task_row ''Stated3'' ''P'' 19723 19728 (Num 3)]\<rparr>"

section \<open>Theorems: hierarchy detection\<close>

lemma detect_row_cases:
  assumes "detect_row ts (cb, cp) r = Inr (r1, st1)"
  shows "(isna (r ''task'') \<and> r1 = r \<and> st1 = (cb, cp))
       \<or> (\<not> isna (r ''task'') \<and> r1 = r(''level'' \<mapsto> Str ''bloc'', ''bloc'' \<mapsto> label ts r)
            \<and> st1 = (label ts r, Null))
       \<or> (\<not> isna (r ''task'') \<and>
            r1 = r(''level'' \<mapsto> Str ''phase'', ''phase'' \<mapsto> label ts r, ''bloc'' \<mapsto> cb)
            \<and> st1 = (cb, label ts r))
       \<or> (\<not> isna (r ''task'') \<and>
            r1 = r(''level'' \<mapsto> Str ''tache'', ''bloc'' \<mapsto> cb, ''phase'' \<mapsto> cp)
            \<and> st1 = (cb, cp))"
  using assms
  by (auto simp: detect_row_def label_def Let_def split: option.splits cell.splits if_splits)

lemma label_upd [simp]:
  "k \<noteq> ''task'' \<Longrightarrow> label ts (r(k \<mapsto> v)) = label ts r"
  by (simp add: label_def)

lemma nearest_snoc:
  "nearest_block ts (pre @ [r1]) = (if level_is ''bloc'' r1 then label ts r1 else nearest_block ts pre)"
  "nearest_phase ts (pre @ [r1]) =
     (if level_is ''bloc'' r1 then Null
      else if level_is ''phase'' r1 then label ts r1 else nearest_phase ts pre)"
  by (simp_all add: nearest_block_def nearest_phase_def)

lemma nearest_Nil [simp]: "nearest_block ts [] = Null" "nearest_phase ts [] = Null"
  by (simp_all add: nearest_block_def nearest_phase_def)

text \<open>One turn of the loop keeps \<open>current_bloc\<close> and \<open>current_phase\<close> equal to the nearest
  Block and Phase labels of the rows written so far.\<close>

lemma detect_row_step:
  assumes "detect_row ts (nearest_block ts pre, nearest_phase ts pre) r = Inr (r1, st1)"
    and "fresh r"
  shows "classified ts pre r r1"
    and "st1 = (nearest_block ts (pre @ [r1]), nearest_phase ts (pre @ [r1]))"
  using detect_row_cases [OF assms(1)] assms(2)
  by (auto simp: classified_def nearest_snoc level_is_def fresh_def)

lemma detect_loop_rows:
  assumes "detect_loop ts (nearest_block ts pre, nearest_phase ts pre) rs = Inr rs1"
    and "\<forall>r\<in>set rs. fresh r"
  shows "length rs1 = length rs \<and>
         (\<forall>i<length rs. classified ts (pre @ take i rs1) (rs ! i) (rs1 ! i))"
  using assms
proof (induction rs arbitrary: pre rs1)
  case Nil
  then show ?case by simp
next
  case (Cons r rs)
  from Cons.prems(1) obtain r1 st1 rs2 where
    row: "detect_row ts (nearest_block ts pre, nearest_phase ts pre) r = Inr (r1, st1)"
    and rest: "detect_loop ts st1 rs = Inr rs2"
    and out: "rs1 = r1 # rs2"
    by (auto split: sum.splits)
  from Cons.prems(2) have fr: "fresh r" and frs: "\<forall>x\<in>set rs. fresh x" by simp_all
  note step = detect_row_step [OF row fr]
  from rest step(2) have
    "detect_loop ts (nearest_block ts (pre @ [r1]), nearest_phase ts (pre @ [r1])) rs = Inr rs2"
    by simp
  from Cons.IH [OF this frs] have
    len: "length rs2 = length rs" and
    ih: "\<forall>i<length rs. classified ts ((pre @ [r1]) @ take i rs2) (rs ! i) (rs2 ! i)"
    by simp_all
  have "classified ts (pre @ take i rs1) ((r # rs) ! i) (rs1 ! i)" if "i < length (r # rs)" for i
  proof (cases i)
    case 0
    with step(1) out show ?thesis by simp
  next
    case (Suc j)
    with that have "j < length rs" by simp
    with ih have "classified ts ((pre @ [r1]) @ take j rs2) (rs ! j) (rs2 ! j)" by blast
    with Suc out show ?thesis by simp
  qed
  with len out show ?case by simp
qed

lemma rows_init_columns: "rows (init_columns df) = map reset_row (rows df)"
  by (simp add: init_columns_def set_column_def reset_row_def comp_def)

lemma fresh_init_columns: "\<forall>r\<in>set (rows (init_columns df)). fresh r"
  by (simp add: rows_init_columns fresh_def reset_row_def)

lemma detect_structure_rows:
  assumes "detect_structure ts df = Inr df1"
  shows "length (rows df1) = length (rows df)"
    and "i < length (rows df) \<Longrightarrow>
         classified ts (take i (rows df1)) (reset_row (rows df ! i)) (rows df1 ! i)"
    and "columns df1 = columns (init_columns df)"
proof -
  from assms obtain rs where
    loop: "detect_loop ts (Null, Null) (rows (init_columns df)) = Inr rs"
    and out: "df1 = (init_columns df)\<lparr>rows := rs\<rparr>"
    by (auto simp: detect_structure_def Let_def split: sum.splits)
  from loop have
    "detect_loop ts (nearest_block ts [], nearest_phase ts []) (rows (init_columns df)) = Inr rs"
    by simp
  from detect_loop_rows [OF this fresh_init_columns] out
  show "length (rows df1) = length (rows df)"
    and "i < length (rows df) \<Longrightarrow>
         classified ts (take i (rows df1)) (reset_row (rows df ! i)) (rows df1 ! i)"
    and "columns df1 = columns (init_columns df)"
    by (simp_all add: rows_init_columns)
qed

lemma reset_row_overwrite: "reset_row (overwrite r v) = reset_row r"
  by (cases v) (auto simp: reset_row_def overwrite_def fun_eq_iff)

lemma reset_row_classified:
  "classified ts before (reset_row r) r1 \<Longrightarrow> reset_row r1 = reset_row r"
  by (auto simp: classified_def reset_row_def fun_eq_iff)

lemma init_columns_cong:
  assumes "columns (init_columns a) = columns (init_columns b)"
    and "map reset_row (rows a) = map reset_row (rows b)"
  shows "init_columns a = init_columns b"
  using assms by (intro dataframe.equality) (simp_all add: rows_init_columns)

lemmas detect_eval =
  detect_structure_def init_columns_def set_column_def detect_row_def strip_def
  isupper_def is_upper_def is_lower_def is_digit_def is_space_def ts_unused_def Let_def

lemmas measure_eval =
  level_is_def label_def nearest_block_def nearest_phase_def strip_def is_space_def

lemma abx_detected: "detect_structure ts_unused abx = Inr abx_out"
  by (simp add: abx_out_def abx_def detect_eval)

lemma abx_out_rows:
  "length (rows abx_out) = 3"
  "(rows abx_out ! 0) ''level'' = Some (Str ''bloc'')"
  "(rows abx_out ! 0) ''bloc'' = Some (Str ''A'')"
  "(rows abx_out ! 0) ''phase'' = Some Null"
  "(rows abx_out ! Suc 0) ''level'' = Some (Str ''phase'')"
  "(rows abx_out ! Suc 0) ''bloc'' = Some (Str ''A'')"
  "(rows abx_out ! Suc 0) ''phase'' = Some (Str ''1'')"
  "(rows abx_out ! 2) ''level'' = Some (Str ''tache'')"
  "(rows abx_out ! 2) ''bloc'' = Some (Str ''A'')"
  "(rows abx_out ! 2) ''phase'' = Some (Str ''1'')"
  "(rows abx_out ! 0) ''task'' = Some (Str ''A'')"
  "(rows abx_out ! Suc 0) ''task'' = Some (Str ''1'')"
  "(rows abx_out ! 2) ''task'' = Some (Str ''x'')"
  by (simp_all add: abx_out_def abx_def detect_eval)

lemma a_then_null_detected: "detect_structure ts_unused a_then_null = Inr a_then_null_out"
  by (simp add: a_then_null_out_def a_then_null_def detect_eval)

lemma a_then_null_out_rows:
  "length (rows a_then_null_out) = 2"
  "(rows a_then_null_out ! 0) ''level'' = Some (Str ''bloc'')"
  "(rows a_then_null_out ! 0) ''task'' = Some (Str ''A'')"
  "(rows a_then_null_out ! Suc 0) ''level'' = Some (Str ''tache'')"
  "(rows a_then_null_out ! Suc 0) ''bloc'' = Some Null"
  "(rows a_then_null_out ! Suc 0) ''phase'' = Some Null"
  "(rows a_then_null_out ! Suc 0) ''task'' = Some Null"
  by (simp_all add: a_then_null_out_def a_then_null_def detect_eval)

subsection \<open>Claim C1\<close>

text \<open>
  C1, as stated: after detection, every row classified as Task carries in \<open>bloc\<close> the
  label of the nearest preceding Block row (or null) and in \<open>phase\<close> the label of the
  nearest preceding Phase row since that block (or null). This fails on a row with no
  text: it keeps the default Task level and null \<open>bloc\<close>, whatever precedes it. Here a
  block header A is followed by a row with an empty text cell.
\<close>

theorem task_without_text_ignores_block:
  "detect_structure ts_unused a_then_null = Inr a_then_null_out \<and>
   1 < length (rows a_then_null_out) \<and>
   level_is ''tache'' (rows a_then_null_out ! 1) \<and>
   nearest_block ts_unused (take 1 (rows a_then_null_out)) = Str ''A'' \<and>
   (rows a_then_null_out ! 1) ''bloc'' \<noteq> Some (nearest_block ts_unused (take 1 (rows a_then_null_out)))"
proof -
  have "take 1 (rows a_then_null_out) = [rows a_then_null_out ! 0]"
    using a_then_null_out_rows(1) by (cases "rows a_then_null_out") simp_all
  then have "nearest_block ts_unused (take 1 (rows a_then_null_out)) = Str ''A''"
    by (simp add: a_then_null_out_rows measure_eval)
  then show ?thesis
    by (simp add: a_then_null_detected a_then_null_out_rows level_is_def)
qed

text \<open>
  C1, amended: after a detection that returns, every row classified as Task whose text
  cell is not null carries in \<open>bloc\<close> the label of the nearest preceding Block row (null
  if there is none) and in \<open>phase\<close> the label of the nearest preceding Phase row since
  that block (null if there is none).
\<close>

theorem task_rows_reference_nearest_headers:
  assumes "detect_structure ts df = Inr df1"
    and "i < length (rows df1)"
    and "level_is ''tache'' (rows df1 ! i)"
    and "\<not> isna ((rows df1 ! i) ''task'')"
  shows "(rows df1 ! i) ''bloc'' = Some (nearest_block ts (take i (rows df1))) \<and>
         (rows df1 ! i) ''phase'' = Some (nearest_phase ts (take i (rows df1)))"
proof -
  from assms(1,2) have i: "i < length (rows df)"
    by (simp add: detect_structure_rows(1))
  from detect_structure_rows(2) [OF assms(1) i] assms(3,4) i
  show ?thesis
    by (auto simp: classified_def level_is_def reset_row_def)
qed

text \<open>The sequence \<open>[BLOCK "A", PHASE "1", TASK "x"]\<close>: the task's block is A and its
  phase is 1.\<close>

theorem task_rows_reference_nearest_headers_witness:
  "detect_structure ts_unused abx = Inr abx_out \<and>
   2 < length (rows abx_out) \<and>
   level_is ''tache'' (rows abx_out ! 2) \<and>
   \<not> isna ((rows abx_out ! 2) ''task'') \<and>
   (rows abx_out ! 2) ''bloc'' = Some (nearest_block ts_unused (take 2 (rows abx_out))) \<and>
   (rows abx_out ! 2) ''phase'' = Some (nearest_phase ts_unused (take 2 (rows abx_out))) \<and>
   (rows abx_out ! 2) ''bloc'' = Some (Str ''A'') \<and>
   (rows abx_out ! 2) ''phase'' = Some (Str ''1'')"
proof -
  have hyps: "2 < length (rows abx_out)" "level_is ''tache'' (rows abx_out ! 2)"
    "\<not> isna ((rows abx_out ! 2) ''task'')"
    by (simp_all add: abx_out_rows level_is_def)
  from task_rows_reference_nearest_headers [OF abx_detected hyps] hyps
  show ?thesis
    by (simp add: abx_detected abx_out_rows)
qed

subsection \<open>Claim C2\<close>

text \<open>A row with a null text cell does not stop a detection that returns: it is left a Task
  with null \<open>bloc\<close> and \<open>phase\<close>.\<close>

lemma null_text_row_stays_task:
  assumes "detect_structure ts df = Inr df1"
    and "i < length (rows df)"
    and "isna ((rows df ! i) ''task'')"
  shows "rows df1 ! i = reset_row (rows df ! i)"
  using detect_structure_rows(2) [OF assms(1,2)] assms(3)
  by (auto simp: classified_def reset_row_def)

text \<open>
  C2: a row whose text is empty or null is classified as Task with null block and
  phase, and detection does not crash on it. For a null text cell the code does that;
  for a text of blanks only, \<open>strip()\<close> leaves the empty string, the block test fails and
  \<open>task_str[0]\<close> raises IndexError. The failing input is a table of one row whose text
  cell holds a single space.
\<close>

theorem blank_text_raises_IndexError:
  "detect_structure ts \<lparr>columns = [''task''], rows = [[''task'' \<mapsto> Str '' '']]\<rparr> = Inl IndexError"
  by (simp add: detect_structure_def init_columns_def set_column_def detect_row_def
      strip_def is_space_def isupper_def)

subsection \<open>Claim C3\<close>

text \<open>
  C3, as stated: every Block row has null \<open>bloc\<close> and \<open>phase\<close> of its own, and a Phase row
  holds no \<open>phase\<close> reference to itself. On \<open>[BLOCK "A", PHASE "1", TASK "x"]\<close> the Block
  row's \<open>bloc\<close> is its own label A, and the Phase row's \<open>phase\<close> is its own label 1.
\<close>

theorem header_rows_hold_their_own_label:
  "detect_structure ts_unused abx = Inr abx_out \<and>
   level_is ''bloc'' (rows abx_out ! 0) \<and>
   (rows abx_out ! 0) ''bloc'' = Some (Str ''A'') \<and>
   (rows abx_out ! 0) ''bloc'' \<noteq> Some Null \<and>
   level_is ''phase'' (rows abx_out ! 1) \<and>
   label ts_unused (rows abx_out ! 1) = Str ''1'' \<and>
   (rows abx_out ! 1) ''phase'' = Some (label ts_unused (rows abx_out ! 1))"
  by (simp add: abx_detected abx_out_rows measure_eval)

text \<open>
  C3, amended: after a detection that returns, every Block row has \<open>bloc\<close> equal to its
  own label and null \<open>phase\<close>; every Phase row has \<open>bloc\<close> equal to the label of the
  enclosing block (the nearest preceding Block row, null if there is none) and \<open>phase\<close>
  equal to its own label.
\<close>

theorem header_rows_fields:
  assumes "detect_structure ts df = Inr df1"
    and "i < length (rows df1)"
  shows "(level_is ''bloc'' (rows df1 ! i) \<longrightarrow>
            (rows df1 ! i) ''bloc'' = Some (label ts (rows df1 ! i)) \<and>
            (rows df1 ! i) ''phase'' = Some Null) \<and>
         (level_is ''phase'' (rows df1 ! i) \<longrightarrow>
            (rows df1 ! i) ''bloc'' = Some (nearest_block ts (take i (rows df1))) \<and>
            (rows df1 ! i) ''phase'' = Some (label ts (rows df1 ! i)))"
proof -
  from assms(1,2) have i: "i < length (rows df)"
    by (simp add: detect_structure_rows(1))
  from detect_structure_rows(2) [OF assms(1) i] i
  show ?thesis
    by (auto simp: classified_def level_is_def reset_row_def)
qed

theorem header_rows_fields_witness:
  "detect_structure ts_unused abx = Inr abx_out \<and> 0 < length (rows abx_out) \<and>
   1 < length (rows abx_out) \<and>
   level_is ''bloc'' (rows abx_out ! 0) \<and>
   (rows abx_out ! 0) ''bloc'' = Some (label ts_unused (rows abx_out ! 0)) \<and>
   (rows abx_out ! 0) ''phase'' = Some Null \<and>
   level_is ''phase'' (rows abx_out ! 1) \<and>
   (rows abx_out ! 1) ''bloc'' = Some (nearest_block ts_unused (take 1 (rows abx_out))) \<and>
   (rows abx_out ! 1) ''phase'' = Some (label ts_unused (rows abx_out ! 1))"
proof -
  have len: "0 < length (rows abx_out)" "1 < length (rows abx_out)"
    by (simp_all add: abx_out_rows)
  from header_rows_fields [OF abx_detected len(1)] header_rows_fields [OF abx_detected len(2)] len
  show ?thesis
    by (simp add: abx_detected abx_out_rows level_is_def)
qed

subsection \<open>Claim C8\<close>

text \<open>
  C8: detection is idempotent. When detection returns a frame, detection on that frame
  (which still has the text and date cells) returns the same frame: the same level,
  \<open>bloc\<close> and \<open>phase\<close> on every row, and the same columns.
\<close>

theorem detect_structure_idempotent:
  assumes "detect_structure ts df = Inr df1"
  shows "detect_structure ts df1 = Inr df1"
proof -
  from assms obtain rs where
    loop: "detect_loop ts (Null, Null) (rows (init_columns df)) = Inr rs"
    and out: "df1 = (init_columns df)\<lparr>rows := rs\<rparr>"
    by (auto simp: detect_structure_def Let_def split: sum.splits)
  have len: "length (rows df1) = length (rows df)"
    by (rule detect_structure_rows(1) [OF assms])
  have "map reset_row (rows df1) = map reset_row (rows df)"
  proof (rule nth_equalityI)
    show "length (map reset_row (rows df1)) = length (map reset_row (rows df))"
      using len by simp
  next
    fix i assume "i < length (map reset_row (rows df1))"
    with len have i: "i < length (rows df)" by simp
    from reset_row_classified [OF detect_structure_rows(2) [OF assms i]] i len
    show "map reset_row (rows df1) ! i = map reset_row (rows df) ! i" by simp
  qed
  moreover have "columns (init_columns df1) = columns (init_columns df)"
    unfolding out by (simp add: init_columns_def set_column_def)
  ultimately have "init_columns df1 = init_columns df"
    by (intro init_columns_cong)
  with loop out show ?thesis
    by (simp add: detect_structure_def)
qed

theorem detect_structure_idempotent_witness:
  "detect_structure ts_unused abx = Inr abx_out \<and>
   detect_structure ts_unused abx_out = Inr abx_out"
  using detect_structure_idempotent [OF abx_detected] abx_detected by simp

subsection \<open>Claim C10\<close>

text \<open>
  C10: detection resets \<open>level\<close> to tache and \<open>bloc\<close> and \<open>phase\<close> to null on every row
  before it classifies, so whatever the mapped input holds in these three cells is
  discarded: putting arbitrary contents \<open>vs\<close> there (or removing the cells) changes
  nothing of the result. After a detection that returns, every row's level is one of
  bloc, phase and tache.
\<close>

theorem detect_structure_discards_input_hierarchy:
  assumes "length vs = length (rows df)"
  shows "detect_structure ts (df\<lparr>rows := map2 overwrite (rows df) vs\<rparr>) = detect_structure ts df \<and>
         (\<forall>df1. detect_structure ts df = Inr df1 \<longrightarrow>
            (\<forall>r\<in>set (rows df1).
               r ''level'' \<in> {Some (Str ''bloc''), Some (Str ''phase''), Some (Str ''tache'')}))"
proof -
  have "map reset_row (map2 overwrite (rows df) vs) = map reset_row (rows df)"
    using assms by (intro nth_equalityI) (simp_all add: reset_row_overwrite)
  moreover have
    "columns (init_columns (df\<lparr>rows := map2 overwrite (rows df) vs\<rparr>)) = columns (init_columns df)"
    by (simp add: init_columns_def set_column_def)
  ultimately have "init_columns (df\<lparr>rows := map2 overwrite (rows df) vs\<rparr>) = init_columns df"
    by (intro init_columns_cong) simp_all
  then have first:
    "detect_structure ts (df\<lparr>rows := map2 overwrite (rows df) vs\<rparr>) = detect_structure ts df"
    by (simp add: detect_structure_def)
  have "r ''level'' \<in> {Some (Str ''bloc''), Some (Str ''phase''), Some (Str ''tache'')}"
    if ok: "detect_structure ts df = Inr df1" and r: "r \<in> set (rows df1)" for df1 r
  proof -
    from r obtain i where i: "i < length (rows df1)" and ri: "rows df1 ! i = r"
      by (auto simp: in_set_conv_nth)
    from i have i': "i < length (rows df)" by (simp add: detect_structure_rows(1) [OF ok])
    from detect_structure_rows(2) [OF ok i'] i' ri show ?thesis
      by (auto simp: classified_def reset_row_def)
  qed
  with first show ?thesis by blast
qed

theorem detect_structure_discards_input_hierarchy_witness:
  "length stale_cells = length (rows abx) \<and>
   (rows (abx\<lparr>rows := map2 overwrite (rows abx) stale_cells\<rparr>) ! 0) ''bloc'' = Some (Str ''OLD'') \<and>
   detect_structure ts_unused (abx\<lparr>rows := map2 overwrite (rows abx) stale_cells\<rparr>) = Inr abx_out \<and>
   (rows abx_out ! 0) ''bloc'' = Some (Str ''A'') \<and>
   (rows abx_out ! 0) ''level'' \<in> {Some (Str ''bloc''), Some (Str ''phase''), Some (Str ''tache'')}"
proof -
  have len: "length stale_cells = length (rows abx)"
    by (simp add: stale_cells_def abx_def)
  have mem: "rows abx_out ! 0 \<in> set (rows abx_out)"
    by (rule nth_mem) (simp add: abx_out_rows)
  from detect_structure_discards_input_hierarchy [OF len, of ts_unused] abx_detected mem
  have "detect_structure ts_unused (abx\<lparr>rows := map2 overwrite (rows abx) stale_cells\<rparr>) = Inr abx_out"
    and "(rows abx_out ! 0) ''level'' \<in> {Some (Str ''bloc''), Some (Str ''phase''), Some (Str ''tache'')}"
    by auto
  moreover have
    "(rows (abx\<lparr>rows := map2 overwrite (rows abx) stale_cells\<rparr>) ! 0) ''bloc'' = Some (Str ''OLD'')"
    by (simp add: abx_def stale_cells_def overwrite_def)
  ultimately show ?thesis
    using len by (simp add: abx_out_rows)
qed

section \<open>Theorems: the parse\<close>

lemma columns_convert_column [simp]: "columns (convert_column c f df) = columns df"
  by (simp add: convert_column_def)

lemma clean_data_no_duration:
  assumes "''start'' \<in> set (columns df)" "''end'' \<in> set (columns df)"
    "''duration'' \<notin> set (columns df)"
  shows "clean_data ts to_datetime to_numeric df = Inl (KeyError ''duration'')"
  using assms by (simp add: clean_data_def Let_def)

lemma columns_init_columns:
  "set (columns (init_columns df)) = set (columns df) \<union> {''level'', ''bloc'', ''phase''}"
  by (auto simp: init_columns_def set_column_def)

lemma debut_fin_columns:
  "columns (map_columns debut_fin) = [''tache'', ''debut'', ''fin'', ''task'', ''start'', ''end'']"
  by (simp add: map_columns_def debut_fin_def column_mapping_def copy_column_def)

lemma debut_fin_detected: "\<not> isl (detect_structure ts_unused (map_columns debut_fin))"
  by (simp add: map_columns_def debut_fin_def column_mapping_def copy_column_def detect_eval)

subsection \<open>Claim C9\<close>

text \<open>
  C9: when the table has, after column mapping, a \<open>start\<close> and an \<open>end\<close> column and no
  \<open>duration\<close> column, \<open>parse_excel\<close> raises and returns no dataset. Whenever hierarchy
  detection returns, the exception is the KeyError of the duration back-fill, which
  reads \<open>df_clean['duration']\<close> without testing for the column.
\<close>

theorem parse_excel_without_duration_raises:
  assumes "''start'' \<in> set (columns (map_columns df))"
    and "''end'' \<in> set (columns (map_columns df))"
    and "''duration'' \<notin> set (columns (map_columns df))"
  shows "(\<exists>e. parse_excel ts to_datetime to_numeric df = Inl (Erreur_parsing e)) \<and>
         (\<forall>d. detect_structure ts (map_columns df) = Inr d \<longrightarrow>
              parse_excel ts to_datetime to_numeric df = Inl (Erreur_parsing (KeyError ''duration'')))"
proof -
  have "parse_excel ts to_datetime to_numeric df = Inl (Erreur_parsing (KeyError ''duration''))"
    if d: "detect_structure ts (map_columns df) = Inr d" for d
  proof -
    from detect_structure_rows(3) [OF d] have "set (columns d) = set (columns (map_columns df)) \<union> {''level'', ''bloc'', ''phase''}"
      by (simp add: columns_init_columns)
    with assms have "clean_data ts to_datetime to_numeric d = Inl (KeyError ''duration'')"
      by (intro clean_data_no_duration) auto
    with d show ?thesis by (simp add: parse_excel_def)
  qed
  then show ?thesis
    by (cases "detect_structure ts (map_columns df)") (auto simp: parse_excel_def)
qed

theorem parse_excel_without_duration_raises_witness:
  "''start'' \<in> set (columns (map_columns debut_fin)) \<and>
   ''end'' \<in> set (columns (map_columns debut_fin)) \<and>
   ''duration'' \<notin> set (columns (map_columns debut_fin)) \<and>
   \<not> isl (detect_structure ts_unused (map_columns debut_fin)) \<and>
   parse_excel ts_unused (map nothing_parses) nothing_parses debut_fin =
     Inl (Erreur_parsing (KeyError ''duration''))"
proof -
  have cols: "''start'' \<in> set (columns (map_columns debut_fin))"
    "''end'' \<in> set (columns (map_columns debut_fin))"
    "''duration'' \<notin> set (columns (map_columns debut_fin))"
    by (simp_all add: debut_fin_columns)
  from debut_fin_detected obtain d where "detect_structure ts_unused (map_columns debut_fin) = Inr d"
    by (cases "detect_structure ts_unused (map_columns debut_fin)") auto
  with parse_excel_without_duration_raises [OF cols, of ts_unused "map nothing_parses" nothing_parses]
  have "parse_excel ts_unused (map nothing_parses) nothing_parses debut_fin =
     Inl (Erreur_parsing (KeyError ''duration''))" by blast
  with cols debut_fin_detected show ?thesis by simp
qed

section \<open>Theorems: validation\<close>

lemma and_then_simps [simp]:
  "and_then (Inr x) f = f x"
  "and_then (Inl e) f = Inl e"
  by (simp_all add: and_then_def)

lemma collect_Inr:
  "(\<And>x. x \<in> set xs \<Longrightarrow> f x = Inr (g x)) \<Longrightarrow> collect f xs = Inr (concat (map g xs))"
  by (induction xs) simp_all

lemma tasks_of_Inr:
  "''level'' \<in> set (columns df) \<Longrightarrow>
   tasks_of df = Inr (filter (\<lambda>(idx, r). level_is ''tache'' r) (enumerate 0 (rows df)))"
  by (simp add: tasks_of_def level_is_def)

lemma dropna_Inr:
  "set labels \<subseteq> set (columns df) \<Longrightarrow>
   dropna labels df tasks = Inr (filter (\<lambda>(idx, r). list_all (\<lambda>c. \<not> isna (r c)) labels) tasks)"
proof -
  assume "set labels \<subseteq> set (columns df)"
  then have "filter (\<lambda>c. c \<notin> set (columns df)) labels = []"
    by (auto simp: filter_empty_conv)
  then show ?thesis by (simp add: dropna_def)
qed

lemma in_enumerate0: "(idx, r) \<in> set (enumerate 0 xs) \<longleftrightarrow> idx < length xs \<and> r = xs ! idx"
  by (auto simp: in_set_enumerate_eq)

lemma is_dateE: "is_date v \<Longrightarrow> \<exists>t. v = Some (Date t)"
  by (auto simp: is_date_def split: option.splits cell.splits)

lemma is_numE: "is_num v \<Longrightarrow> \<exists>n. v = Some (Num n)"
  by (auto simp: is_num_def split: option.splits cell.splits)

lemma duration_warning_fields:
  "severity (duration_warning idx r c d) = ''warning''"
  "row (duration_warning idx r c d) = Some idx"
  "Fmt (Num c) \<in> set (message (duration_warning idx r c d)) \<and>
   Fmt (Num d) \<in> set (message (duration_warning idx r c d))"
  by (simp_all add: duration_warning_def)

lemma duration_alert_typed:
  assumes "r ''start_date'' = Some (Date s)" "r ''end_date'' = Some (Date e)"
    "r ''duration'' = Some (Num d)"
  shows "duration_alert (idx, r) =
         Inr (if 1 < \<bar>days_between s e - d\<bar> then [duration_warning idx r (days_between s e) d] else [])"
  using assms by (simp add: duration_alert_def getitem_def duration_warning_def)

subsection \<open>Claim C4\<close>

text \<open>
  C4: on a frame that has the columns the rule reads, and whose Task rows with start
  date, end date and duration present hold Timestamps and an integer there, the
  duration rule returns a list of warnings, each for such a row. For such a row it
  holds a warning if and only if the computed duration (the whole days from start to
  end) and the stated one differ by more than 1, so a difference of exactly 1 gives no
  alert. The message of the warning holds both the computed and the stated duration.
\<close>

theorem duration_coherence_warns_iff:
  assumes cols: "''level'' \<in> set (columns df)" "''start_date'' \<in> set (columns df)"
      "''end_date'' \<in> set (columns df)" "''duration'' \<in> set (columns df)"
    and typed: "\<forall>r\<in>set (rows df).
        level_is ''tache'' r \<and> \<not> isna (r ''start_date'') \<and> \<not> isna (r ''end_date'') \<and>
        \<not> isna (r ''duration'') \<longrightarrow>
        is_date (r ''start_date'') \<and> is_date (r ''end_date'') \<and> is_num (r ''duration'')"
  shows "\<exists>alerts. check_duration_coherence df = Inr alerts \<and>
     (\<forall>a\<in>set alerts. severity a = ''warning'' \<and>
        (\<exists>idx<length (rows df). row a = Some idx \<and> level_is ''tache'' (rows df ! idx) \<and>
           is_date ((rows df ! idx) ''start_date'') \<and> is_date ((rows df ! idx) ''end_date'') \<and>
           is_num ((rows df ! idx) ''duration''))) \<and>
     (\<forall>idx s e d.
        idx < length (rows df) \<and> level_is ''tache'' (rows df ! idx) \<and>
        (rows df ! idx) ''start_date'' = Some (Date s) \<and>
        (rows df ! idx) ''end_date'' = Some (Date e) \<and>
        (rows df ! idx) ''duration'' = Some (Num d) \<longrightarrow>
        ((\<exists>a\<in>set alerts. row a = Some idx) \<longleftrightarrow> 1 < \<bar>days_between s e - d\<bar>) \<and>
        (\<forall>a\<in>set alerts. row a = Some idx \<longrightarrow>
           Fmt (Num (days_between s e)) \<in> set (message a) \<and> Fmt (Num d) \<in> set (message a)))"
proof -
  define cand where "cand =
    filter (\<lambda>(idx, r). list_all (\<lambda>c. \<not> isna (r c)) [''start_date'', ''end_date'', ''duration''])
      (filter (\<lambda>(idx, r). level_is ''tache'' r) (enumerate 0 (rows df)))"
  define g where "g = (\<lambda>(idx, r).
    if 1 < \<bar>days_between (int_key r ''start_date'') (int_key r ''end_date'') - int_key r ''duration''\<bar>
    then [duration_warning idx r (days_between (int_key r ''start_date'') (int_key r ''end_date''))
            (int_key r ''duration'')]
    else [])"
  have mem: "(idx, r) \<in> set cand \<longleftrightarrow>
      idx < length (rows df) \<and> r = rows df ! idx \<and> level_is ''tache'' r \<and>
      \<not> isna (r ''start_date'') \<and> \<not> isna (r ''end_date'') \<and> \<not> isna (r ''duration'')" for idx r
    by (auto simp: cand_def in_enumerate0)
  have dated: "\<exists>s e d. r ''start_date'' = Some (Date s) \<and> r ''end_date'' = Some (Date e) \<and>
      r ''duration'' = Some (Num d)" if "(idx, r) \<in> set cand" for idx r
  proof -
    from that have "r \<in> set (rows df)" by (auto simp: mem)
    with typed that show ?thesis
      by (auto simp: mem dest!: is_dateE is_numE)
  qed
  have each: "duration_alert x = Inr (g x)" if "x \<in> set cand" for x
  proof -
    obtain idx r where x: "x = (idx, r)" by (cases x)
    with that dated obtain s e d where
      "r ''start_date'' = Some (Date s)" "r ''end_date'' = Some (Date e)"
      "r ''duration'' = Some (Num d)" by blast
    then show ?thesis
      unfolding x by (simp add: duration_alert_typed g_def int_key_def)
  qed
  have "check_duration_coherence df = collect duration_alert cand"
    using cols by (simp add: check_duration_coherence_def tasks_of_Inr dropna_Inr cand_def)
  also have "\<dots> = Inr (concat (map g cand))"
    by (rule collect_Inr) (rule each)
  finally have run: "check_duration_coherence df = Inr (concat (map g cand))" .
  have alerts: "a \<in> set (concat (map g cand)) \<longleftrightarrow>
      (\<exists>idx r s e d. (idx, r) \<in> set cand \<and> r ''start_date'' = Some (Date s) \<and>
         r ''end_date'' = Some (Date e) \<and> r ''duration'' = Some (Num d) \<and>
         1 < \<bar>days_between s e - d\<bar> \<and> a = duration_warning idx r (days_between s e) d)" for a
  proof
    assume "a \<in> set (concat (map g cand))"
    then obtain idx r where x: "(idx, r) \<in> set cand" and a: "a \<in> set (g (idx, r))" by auto
    from dated [OF x] obtain s e d where
      c: "r ''start_date'' = Some (Date s)" "r ''end_date'' = Some (Date e)"
      "r ''duration'' = Some (Num d)" by blast
    with a have "1 < \<bar>days_between s e - d\<bar> \<and> a = duration_warning idx r (days_between s e) d"
      by (auto simp: g_def int_key_def split: if_splits)
    with x c show "\<exists>idx r s e d. (idx, r) \<in> set cand \<and> r ''start_date'' = Some (Date s) \<and>
         r ''end_date'' = Some (Date e) \<and> r ''duration'' = Some (Num d) \<and>
         1 < \<bar>days_between s e - d\<bar> \<and> a = duration_warning idx r (days_between s e) d"
      by blast
  next
    assume "\<exists>idx r s e d. (idx, r) \<in> set cand \<and> r ''start_date'' = Some (Date s) \<and>
         r ''end_date'' = Some (Date e) \<and> r ''duration'' = Some (Num d) \<and>
         1 < \<bar>days_between s e - d\<bar> \<and> a = duration_warning idx r (days_between s e) d"
    then obtain idx r s e d where x: "(idx, r) \<in> set cand"
      and c: "r ''start_date'' = Some (Date s)" "r ''end_date'' = Some (Date e)"
        "r ''duration'' = Some (Num d)"
      and f: "1 < \<bar>days_between s e - d\<bar>" "a = duration_warning idx r (days_between s e) d"
      by blast
    then have "a \<in> set (g (idx, r))" by (simp add: g_def int_key_def)
    with x show "a \<in> set (concat (map g cand))" by force
  qed
  have p1: "severity a = ''warning'' \<and>
        (\<exists>idx<length (rows df). row a = Some idx \<and> level_is ''tache'' (rows df ! idx) \<and>
           is_date ((rows df ! idx) ''start_date'') \<and> is_date ((rows df ! idx) ''end_date'') \<and>
           is_num ((rows df ! idx) ''duration''))"
    if "a \<in> set (concat (map g cand))" for a
  proof -
    from that obtain idx r s e d where "(idx, r) \<in> set cand"
      "r ''start_date'' = Some (Date s)" "r ''end_date'' = Some (Date e)"
      "r ''duration'' = Some (Num d)" "a = duration_warning idx r (days_between s e) d"
      unfolding alerts by blast
    then show ?thesis
      by (auto simp: mem duration_warning_fields is_date_def is_num_def)
  qed
  have p2: "((\<exists>a\<in>set (concat (map g cand)). row a = Some idx) \<longleftrightarrow> 1 < \<bar>days_between s e - d\<bar>) \<and>
        (\<forall>a\<in>set (concat (map g cand)). row a = Some idx \<longrightarrow>
           Fmt (Num (days_between s e)) \<in> set (message a) \<and> Fmt (Num d) \<in> set (message a))"
    if h: "idx < length (rows df)" "level_is ''tache'' (rows df ! idx)"
        "(rows df ! idx) ''start_date'' = Some (Date s)"
        "(rows df ! idx) ''end_date'' = Some (Date e)"
        "(rows df ! idx) ''duration'' = Some (Num d)" for idx s e d
  proof -
    from h have x: "(idx, rows df ! idx) \<in> set cand" by (simp add: mem)
    have from_row: "1 < \<bar>days_between s e - d\<bar> \<and>
        a = duration_warning idx (rows df ! idx) (days_between s e) d"
      if a: "a \<in> set (concat (map g cand))" and ra: "row a = Some idx" for a
    proof -
      from a obtain idx' r s' e' d' where c: "(idx', r) \<in> set cand"
        "r ''start_date'' = Some (Date s')" "r ''end_date'' = Some (Date e')"
        "r ''duration'' = Some (Num d')" "1 < \<bar>days_between s' e' - d'\<bar>"
        "a = duration_warning idx' r (days_between s' e') d'"
        unfolding alerts by blast
      with ra have "idx' = idx" by (simp add: duration_warning_fields)
      with c h show ?thesis by (auto simp: mem)
    qed
    have fires: "duration_warning idx (rows df ! idx) (days_between s e) d \<in> set (concat (map g cand))"
      if "1 < \<bar>days_between s e - d\<bar>"
      unfolding alerts using that x h by blast
    have "(\<exists>a\<in>set (concat (map g cand)). row a = Some idx) \<longleftrightarrow> 1 < \<bar>days_between s e - d\<bar>"
      using fires from_row duration_warning_fields(2) by blast
    moreover have "Fmt (Num (days_between s e)) \<in> set (message a) \<and> Fmt (Num d) \<in> set (message a)"
      if "a \<in> set (concat (map g cand))" "row a = Some idx" for a
      using from_row [OF that] duration_warning_fields(3) by simp
    ultimately show ?thesis by blast
  qed
  from run p1 p2 show ?thesis by blast
qed

text \<open>From January 1 to January 6 the computed duration is 5: no alert for the stated
  duration 4 (row 0), a warning holding 5 and 3 for the stated duration 3 (row 1).\<close>

theorem duration_coherence_warns_iff_witness:
  "\<exists>alerts. check_duration_coherence jan1_jan6 = Inr alerts \<and>
     (rows jan1_jan6 ! 0) ''start_date'' = Some (midnight 19723) \<and>
     (rows jan1_jan6 ! 0) ''end_date'' = Some (midnight 19728) \<and>
     (rows jan1_jan6 ! 0) ''duration'' = Some (Num 4) \<and>
     (rows jan1_jan6 ! 1) ''duration'' = Some (Num 3) \<and>
     days_between (19723 * ns_per_day) (19728 * ns_per_day) = 5 \<and>
     \<not> (\<exists>a\<in>set alerts. row a = Some 0) \<and>
     (\<exists>a\<in>set alerts. row a = Some 1 \<and> severity a = ''warning'' \<and>
        Fmt (Num 5) \<in> set (message a) \<and> Fmt (Num 3) \<in> set (message a))"
proof -
  have cols: "''level'' \<in> set (columns jan1_jan6)" "''start_date'' \<in> set (columns jan1_jan6)"
      "''end_date'' \<in> set (columns jan1_jan6)" "''duration'' \<in> set (columns jan1_jan6)"
    by (simp_all add: jan1_jan6_def norm_columns_def)
  have typed: "\<forall>r\<in>set (rows jan1_jan6).
        level_is ''tache'' r \<and> \<not> isna (r ''start_date'') \<and> \<not> isna (r ''end_date'') \<and>
        \<not> isna (r ''duration'') \<longrightarrow>
        is_date (r ''start_date'') \<and> is_date (r ''end_date'') \<and> is_num (r ''duration'')"
    by (simp add: jan1_jan6_def task_row_def midnight_def is_date_def is_num_def)
  have r0: "0 < length (rows jan1_jan6) \<and> level_is ''tache'' (rows jan1_jan6 ! 0) \<and>
      (rows jan1_jan6 ! 0) ''start_date'' = Some (Date (19723 * ns_per_day)) \<and>
      (rows jan1_jan6 ! 0) ''end_date'' = Some (Date (19728 * ns_per_day)) \<and>
      (rows jan1_jan6 ! 0) ''duration'' = Some (Num 4)"
    by (simp add: jan1_jan6_def task_row_def midnight_def level_is_def)
  have r1: "1 < length (rows jan1_jan6) \<and> level_is ''tache'' (rows jan1_jan6 ! 1) \<and>
      (rows jan1_jan6 ! 1) ''start_date'' = Some (Date (19723 * ns_per_day)) \<and>
      (rows jan1_jan6 ! 1) ''end_date'' = Some (Date (19728 * ns_per_day)) \<and>
      (rows jan1_jan6 ! 1) ''duration'' = Some (Num 3)"
    by (simp add: jan1_jan6_def task_row_def midnight_def level_is_def)
  have days: "days_between (19723 * ns_per_day) (19728 * ns_per_day) = 5"
    by (simp add: days_between_def ns_per_day_def)
  from duration_coherence_warns_iff [OF cols typed] obtain alerts where
    run: "check_duration_coherence jan1_jan6 = Inr alerts"
    and sev: "\<forall>a\<in>set alerts. severity a = ''warning''"
    and iff: "\<And>idx s e d.
        idx < length (rows jan1_jan6) \<and> level_is ''tache'' (rows jan1_jan6 ! idx) \<and>
        (rows jan1_jan6 ! idx) ''start_date'' = Some (Date s) \<and>
        (rows jan1_jan6 ! idx) ''end_date'' = Some (Date e) \<and>
        (rows jan1_jan6 ! idx) ''duration'' = Some (Num d) \<Longrightarrow>
        ((\<exists>a\<in>set alerts. row a = Some idx) \<longleftrightarrow> 1 < \<bar>days_between s e - d\<bar>) \<and>
        (\<forall>a\<in>set alerts. row a = Some idx \<longrightarrow>
           Fmt (Num (days_between s e)) \<in> set (message a) \<and> Fmt (Num d) \<in> set (message a))"
    by blast
  from iff [OF r0] days have no0: "\<not> (\<exists>a\<in>set alerts. row a = Some 0)" by simp
  from iff [OF r1] days sev have yes1: "\<exists>a\<in>set alerts. row a = Some 1 \<and> severity a = ''warning'' \<and>
        Fmt (Num 5) \<in> set (message a) \<and> Fmt (Num 3) \<in> set (message a)"
    by auto
  from run no0 yes1 r0 r1 days show ?thesis
    by (auto simp: midnight_def)
qed

subsection \<open>Claim C6\<close>

lemma zip_tl_nth: "map (\<lambda>i. (xs ! i, xs ! (i + 1))) [0 ..< length xs - 1] = zip xs (tl xs)"
  by (rule nth_equalityI) (auto simp: nth_tl)

lemma concat_map_if: "concat (map (\<lambda>x. if P x then [f x] else []) xs) = map f (filter P xs)"
  by (induction xs) simp_all

lemma overlap_alert_typed:
  assumes "pt ! i = (idx, a)" "pt ! (i + 1) = (j, b)"
    and "is_date (a ''end_date'')" "is_date (b ''start_date'')"
    and "a ''task_name'' \<noteq> None" "b ''task_name'' \<noteq> None"
  shows "overlap_alert pt i =
         Inr (if overlapping (pt ! i, pt ! (i + 1)) then [overlap_info (pt ! i, pt ! (i + 1))] else [])"
proof -
  from assms(3,4) obtain e s where "a ''end_date'' = Some (Date e)" "b ''start_date'' = Some (Date s)"
    by (auto dest!: is_dateE)
  moreover from assms(5,6) obtain na nb where "a ''task_name'' = Some na" "b ''task_name'' = Some nb"
    by auto
  ultimately show ?thesis
    using assms(1,2)
    by (simp add: overlap_alert_def getitem_def overlapping_def overlap_info_def int_key_def get_or_def)
qed

text \<open>The rows of a group in the order \<open>argsort\<close> gives for their start dates.\<close>

lemma date_keys:
  assumes "list_all (\<lambda>(idx, r). is_date (r ''start_date'')) g"
  shows "map (\<lambda>(idx, r). get_or r ''start_date'' Null) g = map Date (map start_of g)"
proof -
  have "get_or r ''start_date'' Null = Date (start_of (idx, r))" if "(idx, r) \<in> set g" for idx r
  proof -
    from assms that have "is_date (r ''start_date'')" by (auto simp: list_all_iff)
    then show ?thesis
      by (auto simp: get_or_def start_of_def int_key_def dest!: is_dateE)
  qed
  then show ?thesis by auto
qed

lemma sort_values_dates:
  "list_all (\<lambda>(idx, r). is_date (r ''start_date'')) g \<Longrightarrow>
   sort_values argsort ''start_date'' g =
     Inr (map (\<lambda>i. g ! i) (argsort (map Date (map start_of g))))"
  by (simp add: sort_values_def date_keys)

lemma arranged:
  assumes "sorts_dates argsort (map start_of g)"
  shows "mset (map (\<lambda>i. g ! i) (argsort (map Date (map start_of g)))) = mset g"
    and "sorted (map start_of (map (\<lambda>i. g ! i) (argsort (map Date (map start_of g)))))"
proof -
  define p where "p = argsort (map Date (map start_of g))"
  from assms have perm: "mset p = mset [0 ..< length g]"
    and asc: "sorted (map (\<lambda>i. map start_of g ! i) p)"
    by (simp_all add: sorts_dates_def p_def)
  from perm have "set p = set [0 ..< length g]" by (rule mset_eq_setD)
  then have inside: "\<forall>i\<in>set p. i < length g" by simp
  have "mset (map (\<lambda>i. g ! i) p) = image_mset (\<lambda>i. g ! i) (mset p)" by simp
  also have "\<dots> = mset (map (\<lambda>i. g ! i) [0 ..< length g])" by (simp add: perm)
  also have "\<dots> = mset g" by (simp add: map_nth)
  finally show "mset (map (\<lambda>i. g ! i) (argsort (map Date (map start_of g)))) = mset g"
    by (simp add: p_def)
  have eq: "map start_of (map (\<lambda>i. g ! i) p) = map (\<lambda>i. map start_of g ! i) p"
    using inside by simp
  have "sorted (map start_of (map (\<lambda>i. g ! i) p))"
    unfolding eq by (rule asc)
  then show "sorted (map start_of (map (\<lambda>i. g ! i) (argsort (map Date (map start_of g)))))"
    unfolding p_def .
qed

lemma filter_same_key:
  "distinct (map f zs) \<Longrightarrow> k \<in> set zs \<Longrightarrow> filter (\<lambda>x. f k = f x) zs = [k]"
proof (induction zs)
  case Nil
  then show ?case by simp
next
  case (Cons z zs)
  from Cons.prems have fresh: "f z \<notin> f ` set zs" and rest: "distinct (map f zs)" by simp_all
  show ?case
  proof (cases "k = z")
    case True
    from fresh have "\<forall>x\<in>set zs. f z \<noteq> f x" by (metis imageI)
    then have "filter (\<lambda>x. f z = f x) zs = []"
      by (simp add: filter_empty_conv)
    with True show ?thesis by simp
  next
    case False
    with Cons.prems have k: "k \<in> set zs" by simp
    with fresh have "f k \<noteq> f z" by (metis imageI)
    with Cons.IH [OF rest k] show ?thesis by simp
  qed
qed

lemma sorted_arrangement_unique:
  assumes "distinct (map f xs)" "mset ys = mset xs" "sorted (map f ys)"
  shows "ys = sort_key f xs"
proof -
  from assms(2) have "mset (map f ys) = mset (map f xs)" by simp
  with assms(1) have dys: "distinct (map f ys)" by (metis distinct_count_atmost_1 set_mset_mset)
  from assms(2) have sets: "set ys = set xs" by (rule mset_eq_setD)
  have "filter (\<lambda>x. f k = f x) ys = filter (\<lambda>x. f k = f x) xs" if "k \<in> set ys" for k
    using that sets by (simp add: filter_same_key [OF dys] filter_same_key [OF assms(1)])
  from properties_for_sort_key [OF assms(2) this assms(3)] show ?thesis by simp
qed

lemma check_overlapping_tasks_collect:
  assumes "''level'' \<in> set (columns df)" "''phase'' \<in> set (columns df)"
    "''start_date'' \<in> set (columns df)" "''end_date'' \<in> set (columns df)"
  shows "check_overlapping_tasks argsort df =
         collect (phase_overlaps argsort (overlap_candidates df)) (phases_of df)"
proof -
  have "filter (\<lambda>(idx, r). list_all (\<lambda>c. \<not> isna (r c)) [''phase'', ''start_date'', ''end_date''])
          (filter (\<lambda>(idx, r). level_is ''tache'' r) (enumerate 0 (rows df))) = overlap_candidates df"
    unfolding overlap_candidates_def filter_filter
    by (rule filter_cong) auto
  with assms show ?thesis
    by (simp add: check_overlapping_tasks_def tasks_of_Inr dropna_Inr phases_of_def)
qed

lemma phase_overlaps_typed:
  assumes typed: "\<forall>(idx, r)\<in>set cand.
      is_date (r ''start_date'') \<and> is_date (r ''end_date'') \<and> r ''task_name'' \<noteq> None"
    and g: "g = filter (\<lambda>(idx, r). r ''phase'' = Some ph) cand"
    and pt: "pt = map (\<lambda>i. g ! i) (argsort (map Date (map start_of g)))"
    and sorter: "sorts_dates argsort (map start_of g)"
  shows "phase_overlaps argsort cand ph =
         Inr (map overlap_info (filter overlapping (adjacent_pairs pt)))"
proof -
  from arranged(1) [OF sorter] have "set pt = set g"
    unfolding pt by (rule mset_eq_setD)
  then have sub: "set pt \<subseteq> set cand"
    by (auto simp: g)
  have "list_all (\<lambda>(idx, r). is_date (r ''start_date'')) g"
    using typed by (auto simp: g list_all_iff)
  then have sorted: "sort_values argsort ''start_date'' g = Inr pt"
    by (simp add: sort_values_dates pt)
  have each: "overlap_alert pt i =
      Inr (if overlapping (pt ! i, pt ! (i + 1)) then [overlap_info (pt ! i, pt ! (i + 1))] else [])"
    if "i \<in> set [0 ..< length pt - 1]" for i
  proof -
    from that have i: "i < length pt" "i + 1 < length pt" by auto
    obtain idx a j b where p: "pt ! i = (idx, a)" "pt ! (i + 1) = (j, b)"
      by (cases "pt ! i", cases "pt ! (i + 1)") auto
    from i p sub have "(idx, a) \<in> set cand" "(j, b) \<in> set cand"
      by (metis nth_mem subsetD)+
    with typed have "is_date (a ''end_date'')" "is_date (b ''start_date'')"
      "a ''task_name'' \<noteq> None" "b ''task_name'' \<noteq> None"
      by auto
    from overlap_alert_typed [OF p this] show ?thesis .
  qed
  have "phase_overlaps argsort cand ph = collect (overlap_alert pt) [0 ..< length pt - 1]"
    by (simp add: phase_overlaps_def sorted g [symmetric])
  also have "\<dots> = Inr (concat (map (\<lambda>i. if overlapping (pt ! i, pt ! (i + 1))
                           then [overlap_info (pt ! i, pt ! (i + 1))] else []) [0 ..< length pt - 1]))"
    by (rule collect_Inr) (rule each)
  also have "concat (map (\<lambda>i. if overlapping (pt ! i, pt ! (i + 1))
                           then [overlap_info (pt ! i, pt ! (i + 1))] else []) [0 ..< length pt - 1])
      = concat (map (\<lambda>p. if overlapping p then [overlap_info p] else [])
          (map (\<lambda>i. (pt ! i, pt ! (i + 1))) [0 ..< length pt - 1]))"
    by (simp only: map_map comp_def)
  also have "\<dots> = map overlap_info (filter overlapping (adjacent_pairs pt))"
    by (simp only: zip_tl_nth concat_map_if adjacent_pairs_def)
  finally show ?thesis .
qed

text \<open>The rule on a frame, for a sort that keeps numpy's promise.\<close>

lemma overlap_rule_arranged:
  assumes cols: "''level'' \<in> set (columns df)" "''phase'' \<in> set (columns df)"
      "''start_date'' \<in> set (columns df)" "''end_date'' \<in> set (columns df)"
    and typed: "\<forall>r\<in>set (rows df).
        level_is ''tache'' r \<and> \<not> isna (r ''phase'') \<and> \<not> isna (r ''start_date'') \<and>
        \<not> isna (r ''end_date'') \<longrightarrow>
        is_date (r ''start_date'') \<and> is_date (r ''end_date'') \<and> r ''task_name'' \<noteq> None"
    and sorter: "\<forall>ts. sorts_dates argsort ts"
  shows "check_overlapping_tasks argsort df =
     Inr (concat (map (\<lambda>g. map overlap_info (filter overlapping (adjacent_pairs g)))
            (map (\<lambda>ph. map (\<lambda>i. phase_group df ph ! i)
                     (argsort (map Date (map start_of (phase_group df ph))))) (phases_of df))))"
proof -
  have cand: "\<forall>(idx, r)\<in>set (overlap_candidates df).
      is_date (r ''start_date'') \<and> is_date (r ''end_date'') \<and> r ''task_name'' \<noteq> None"
    using typed by (auto simp: overlap_candidates_def in_enumerate0)
  have "check_overlapping_tasks argsort df =
      collect (phase_overlaps argsort (overlap_candidates df)) (phases_of df)"
    by (rule check_overlapping_tasks_collect [OF cols])
  also have "\<dots> = Inr (concat (map (\<lambda>ph. map overlap_info (filter overlapping (adjacent_pairs
        (map (\<lambda>i. phase_group df ph ! i) (argsort (map Date (map start_of (phase_group df ph))))))))
        (phases_of df)))"
  proof (rule collect_Inr)
    fix ph
    from sorter have "sorts_dates argsort (map start_of (phase_group df ph))" by blast
    from phase_overlaps_typed [OF cand _ refl this, of ph]
    show "phase_overlaps argsort (overlap_candidates df) ph =
        Inr (map overlap_info (filter overlapping (adjacent_pairs
        (map (\<lambda>i. phase_group df ph ! i) (argsort (map Date (map start_of (phase_group df ph))))))))"
      by (simp add: phase_group_def)
  qed
  finally show ?thesis by (simp add: comp_def)
qed

lemma overlap_rule_without_ties:
  assumes cols: "''level'' \<in> set (columns df)" "''phase'' \<in> set (columns df)"
      "''start_date'' \<in> set (columns df)" "''end_date'' \<in> set (columns df)"
    and typed: "\<forall>r\<in>set (rows df).
        level_is ''tache'' r \<and> \<not> isna (r ''phase'') \<and> \<not> isna (r ''start_date'') \<and>
        \<not> isna (r ''end_date'') \<longrightarrow>
        is_date (r ''start_date'') \<and> is_date (r ''end_date'') \<and> r ''task_name'' \<noteq> None"
    and sorter: "\<forall>ts. sorts_dates argsort ts"
    and no_ties: "\<forall>ph\<in>set (phases_of df). distinct (map start_of (phase_group df ph))"
  shows "check_overlapping_tasks argsort df = Inr (overlap_alerts df)"
proof -
  have "map (\<lambda>i. phase_group df ph ! i) (argsort (map Date (map start_of (phase_group df ph)))) =
      by_start (phase_group df ph)" if "ph \<in> set (phases_of df)" for ph
  proof -
    from sorter have s: "sorts_dates argsort (map start_of (phase_group df ph))" by blast
    from no_ties that have "distinct (map start_of (phase_group df ph))" by blast
    from sorted_arrangement_unique [OF this arranged [OF s]] show ?thesis
      by (simp add: by_start_def)
  qed
  then have eq: "map (\<lambda>ph. map (\<lambda>i. phase_group df ph ! i)
                     (argsort (map Date (map start_of (phase_group df ph))))) (phases_of df)
      = map (\<lambda>ph. by_start (phase_group df ph)) (phases_of df)"
    by (intro map_cong refl)
  have "check_overlapping_tasks argsort df =
     Inr (concat (map (\<lambda>g. map overlap_info (filter overlapping (adjacent_pairs g)))
            (map (\<lambda>ph. by_start (phase_group df ph)) (phases_of df))))"
    using overlap_rule_arranged [OF cols typed sorter] by (simp only: eq)
  then show ?thesis
    by (simp add: overlap_alerts_def comp_def)
qed

lemma stable_argsort_sorts: "sorts_dates stable_argsort ts"
proof -
  define E where "E = enumerate 0 (map Date ts)"
  define h where "h = (\<lambda>(i :: nat, k). cell_int k)"
  have "mset (map fst (sort_key h E)) = mset (map fst E)" by simp
  also have "map fst E = [0 ..< length ts]" by (simp add: E_def)
  finally have perm: "mset (stable_argsort (map Date ts)) = mset [0 ..< length ts]"
    by (simp add: stable_argsort_def E_def h_def)
  have "ts ! fst x = h x" if "x \<in> set E" for x
  proof -
    obtain i k where x: "x = (i, k)" by (cases x)
    with that have "i < length ts" "k = Date (ts ! i)"
      by (auto simp: E_def in_set_enumerate_eq)
    then show ?thesis by (simp add: x h_def cell_int_def)
  qed
  then have eq: "map (\<lambda>i. ts ! i) (map fst (sort_key h E)) = map h (sort_key h E)"
    by simp
  have "sorted (map (\<lambda>i. ts ! i) (map fst (sort_key h E)))"
    unfolding eq by (rule sorted_sort_key)
  then have "sorted (map (\<lambda>i. ts ! i) (stable_argsort (map Date ts)))"
    unfolding stable_argsort_def E_def h_def .
  with perm show ?thesis by (simp add: sorts_dates_def)
qed

lemma two_tasks_hyps:
  "''level'' \<in> set (columns two_tasks)" "''phase'' \<in> set (columns two_tasks)"
  "''start_date'' \<in> set (columns two_tasks)" "''end_date'' \<in> set (columns two_tasks)"
  "\<forall>r\<in>set (rows two_tasks).
        level_is ''tache'' r \<and> \<not> isna (r ''phase'') \<and> \<not> isna (r ''start_date'') \<and>
        \<not> isna (r ''end_date'') \<longrightarrow>
        is_date (r ''start_date'') \<and> is_date (r ''end_date'') \<and> r ''task_name'' \<noteq> None"
  by (simp_all add: two_tasks_def norm_columns_def task_row_def midnight_def is_date_def)

lemma nested_tasks_hyps:
  "''level'' \<in> set (columns nested_tasks)" "''phase'' \<in> set (columns nested_tasks)"
  "''start_date'' \<in> set (columns nested_tasks)" "''end_date'' \<in> set (columns nested_tasks)"
  "\<forall>r\<in>set (rows nested_tasks).
        level_is ''tache'' r \<and> \<not> isna (r ''phase'') \<and> \<not> isna (r ''start_date'') \<and>
        \<not> isna (r ''end_date'') \<longrightarrow>
        is_date (r ''start_date'') \<and> is_date (r ''end_date'') \<and> r ''task_name'' \<noteq> None"
  by (simp_all add: nested_tasks_def norm_columns_def task_row_def midnight_def is_date_def)

lemma two_tasks_no_ties:
  "\<forall>ph\<in>set (phases_of two_tasks). distinct (map start_of (phase_group two_tasks ph))"
  by code_simp

lemma nested_tasks_no_ties:
  "\<forall>ph\<in>set (phases_of nested_tasks). distinct (map start_of (phase_group nested_tasks ph))"
  by code_simp

lemma two_tasks_alerts:
  "overlap_alerts two_tasks =
     [\<lparr>severity = ''info'',
       message = [Lit ''Chevauchement: '', Fmt (Str ''TaskA''), Lit '' et '', Fmt (Str ''TaskB'')],
       row = Some 0\<rparr>]"
  by code_simp

lemma nested_tasks_alerts:
  "overlap_alerts nested_tasks =
     [\<lparr>severity = ''info'',
       message = [Lit ''Chevauchement: '', Fmt (Str ''TaskA''), Lit '' et '', Fmt (Str ''TaskB'')],
       row = Some 0\<rparr>]"
  by code_simp

text \<open>
  C6: on a frame that has the columns the rule reads, and whose Task rows with phase
  and both dates present hold Timestamps in the dates and have a name, and for a sort
  that keeps numpy's promise, the overlap rule returns this: the rows are grouped by
  phase, in the order in which the phases first appear; each group is put in an order
  \<open>gs ! k\<close> in which the start dates ascend (which one, among rows that start at
  the same time, is the sort's choice); there is one info alert for each pair of
  neighbours in that order whose first ends after the second starts, and no other pair
  is compared. Where no two rows of a group start at the same time the order is that
  of \<open>by_start\<close> and the alerts are \<open>overlap_alerts\<close>. On TaskA (January 1 to 10) and
  TaskB (January 5 to 15) in one phase the result is one info alert naming both; on
  the nested tasks, TaskA and TaskC overlap but are not neighbours, and the only alert
  is the one for TaskA and TaskB.
\<close>

theorem overlap_rule_compares_adjacent_pairs:
  assumes cols: "''level'' \<in> set (columns df)" "''phase'' \<in> set (columns df)"
      "''start_date'' \<in> set (columns df)" "''end_date'' \<in> set (columns df)"
    and typed: "\<forall>r\<in>set (rows df).
        level_is ''tache'' r \<and> \<not> isna (r ''phase'') \<and> \<not> isna (r ''start_date'') \<and>
        \<not> isna (r ''end_date'') \<longrightarrow>
        is_date (r ''start_date'') \<and> is_date (r ''end_date'') \<and> r ''task_name'' \<noteq> None"
    and sorter: "\<forall>ts. sorts_dates argsort ts"
  shows "(\<exists>gs. length gs = length (phases_of df) \<and>
            (\<forall>k<length gs. mset (gs ! k) = mset (phase_group df (phases_of df ! k)) \<and>
                           sorted (map start_of (gs ! k))) \<and>
            check_overlapping_tasks argsort df =
              Inr (concat (map (\<lambda>g. map overlap_info (filter overlapping (adjacent_pairs g))) gs))) \<and>
         ((\<forall>ph\<in>set (phases_of df). distinct (map start_of (phase_group df ph))) \<longrightarrow>
            check_overlapping_tasks argsort df = Inr (overlap_alerts df)) \<and>
         check_overlapping_tasks argsort two_tasks =
           Inr [\<lparr>severity = ''info'',
                 message = [Lit ''Chevauchement: '', Fmt (Str ''TaskA''), Lit '' et '',
                            Fmt (Str ''TaskB'')],
                 row = Some 0\<rparr>] \<and>
         check_overlapping_tasks argsort nested_tasks =
           Inr [\<lparr>severity = ''info'',
                 message = [Lit ''Chevauchement: '', Fmt (Str ''TaskA''), Lit '' et '',
                            Fmt (Str ''TaskB'')],
                 row = Some 0\<rparr>]"
proof -
  define gs where "gs = map (\<lambda>ph. map (\<lambda>i. phase_group df ph ! i)
                     (argsort (map Date (map start_of (phase_group df ph))))) (phases_of df)"
  have len: "length gs = length (phases_of df)" by (simp add: gs_def)
  have each: "mset (gs ! k) = mset (phase_group df (phases_of df ! k)) \<and>
      sorted (map start_of (gs ! k))" if "k < length gs" for k
  proof -
    from sorter have "sorts_dates argsort (map start_of (phase_group df (phases_of df ! k)))"
      by blast
    from arranged [OF this] that show ?thesis by (simp add: gs_def)
  qed
  have run: "check_overlapping_tasks argsort df =
      Inr (concat (map (\<lambda>g. map overlap_info (filter overlapping (adjacent_pairs g))) gs))"
    unfolding gs_def by (rule overlap_rule_arranged [OF cols typed sorter])
  have first: "\<exists>gs. length gs = length (phases_of df) \<and>
            (\<forall>k<length gs. mset (gs ! k) = mset (phase_group df (phases_of df ! k)) \<and>
                           sorted (map start_of (gs ! k))) \<and>
            check_overlapping_tasks argsort df =
              Inr (concat (map (\<lambda>g. map overlap_info (filter overlapping (adjacent_pairs g))) gs))"
    using len each run by blast
  have second: "(\<forall>ph\<in>set (phases_of df). distinct (map start_of (phase_group df ph))) \<longrightarrow>
            check_overlapping_tasks argsort df = Inr (overlap_alerts df)"
    using overlap_rule_without_ties [OF cols typed sorter] by blast
  have third: "check_overlapping_tasks argsort two_tasks = Inr (overlap_alerts two_tasks)"
    by (rule overlap_rule_without_ties [OF two_tasks_hyps sorter two_tasks_no_ties])
  have fourth: "check_overlapping_tasks argsort nested_tasks = Inr (overlap_alerts nested_tasks)"
    by (rule overlap_rule_without_ties [OF nested_tasks_hyps sorter nested_tasks_no_ties])
  from first second third fourth show ?thesis
    by (simp only: two_tasks_alerts nested_tasks_alerts)
qed

theorem overlap_rule_compares_adjacent_pairs_witness:
  "''level'' \<in> set (columns two_tasks) \<and> ''phase'' \<in> set (columns two_tasks) \<and>
   ''start_date'' \<in> set (columns two_tasks) \<and> ''end_date'' \<in> set (columns two_tasks) \<and>
   sorts_dates stable_argsort [19723 * ns_per_day, 19727 * ns_per_day] \<and>
   check_overlapping_tasks stable_argsort two_tasks = Inr (overlap_alerts two_tasks) \<and>
   overlap_alerts two_tasks =
     [\<lparr>severity = ''info'',
       message = [Lit ''Chevauchement: '', Fmt (Str ''TaskA''), Lit '' et '', Fmt (Str ''TaskB'')],
       row = Some 0\<rparr>]"
proof -
  have sorter: "\<forall>ts. sorts_dates stable_argsort ts"
    by (simp add: stable_argsort_sorts)
  from overlap_rule_compares_adjacent_pairs [OF two_tasks_hyps sorter] two_tasks_no_ties
  have "check_overlapping_tasks stable_argsort two_tasks = Inr (overlap_alerts two_tasks)"
    by blast
  with two_tasks_hyps(1-4) two_tasks_alerts stable_argsort_sorts show ?thesis
    by blast
qed

subsection \<open>Claim C5\<close>

lemma validate_unfold:
  "validate argsort today df =
     and_then (check_missing_dates df) (\<lambda>a1.
     and_then (check_duration_coherence df) (\<lambda>a2.
     and_then (check_progress_range df) (\<lambda>a3.
     and_then (check_date_order df) (\<lambda>a4.
     and_then (check_orphan_tasks df) (\<lambda>a5.
     and_then (check_overlapping_tasks argsort df) (\<lambda>a6.
     and_then (check_missing_values df) (\<lambda>a7.
     and_then (check_future_progress today df) (\<lambda>a8.
       Inr (a1 @ a2 @ a3 @ a4 @ a5 @ a6 @ a7 @ a8)))))))))"
  by (simp add: validate_def rules_def)

lemma collect_cong:
  "(\<And>x. x \<in> set xs \<Longrightarrow> f x = g x) \<Longrightarrow> collect f xs = collect g xs"
  by (induction xs) simp_all

lemma tasks_of_InrD:
  "tasks_of df = Inr tasks \<Longrightarrow>
   tasks = filter (\<lambda>(idx, r). level_is ''tache'' r) (enumerate 0 (rows df))"
  by (auto simp: tasks_of_def level_is_def split: if_splits)

lemma dropna_InrD:
  "dropna labels df tasks = Inr kept \<Longrightarrow>
   kept = filter (\<lambda>(idx, r). list_all (\<lambda>c. \<not> isna (r c)) labels) tasks"
  by (auto simp: dropna_def Let_def split: if_splits)

lemma future_progress_alert_cong:
  assumes "\<not> isna (r ''start_date'')"
    and "\<And>s. r ''start_date'' = Some (Date s) \<Longrightarrow> (t1 < s \<longleftrightarrow> t2 < s)"
  shows "future_progress_alert t1 (idx, r) = future_progress_alert t2 (idx, r)"
proof (cases "r ''start_date''")
  case None
  with assms(1) show ?thesis by simp
next
  case (Some c)
  show ?thesis
  proof (cases c)
    case (Date s)
    with Some assms(2) have "t1 < s \<longleftrightarrow> t2 < s" by simp
    with Some Date show ?thesis
      by (simp add: future_progress_alert_def getitem_def)
  qed (simp_all add: Some future_progress_alert_def getitem_def)
qed

lemma check_future_progress_cong:
  assumes "\<forall>r\<in>set (rows df). \<forall>s.
      level_is ''tache'' r \<and> r ''start_date'' = Some (Date s) \<and> \<not> isna (r ''progress'') \<longrightarrow>
      (t1 < s \<longleftrightarrow> t2 < s)"
  shows "check_future_progress t1 df = check_future_progress t2 df"
proof (cases "tasks_of df")
  case (Inl e)
  then show ?thesis by (simp add: check_future_progress_def)
next
  case (Inr tasks)
  show ?thesis
  proof (cases "dropna [''start_date'', ''progress''] df tasks")
    case (Inl e)
    with Inr show ?thesis by (simp add: check_future_progress_def)
  next
    case kept: (Inr kept)
    have "future_progress_alert t1 x = future_progress_alert t2 x" if "x \<in> set kept" for x
    proof -
      obtain idx r where x: "x = (idx, r)" by (cases x)
      from that x have "r \<in> set (rows df)" "level_is ''tache'' r"
        "\<not> isna (r ''start_date'')" "\<not> isna (r ''progress'')"
        unfolding dropna_InrD [OF kept] tasks_of_InrD [OF Inr]
        by (auto simp: in_set_enumerate_eq)
      with assms show ?thesis
        unfolding x by (intro future_progress_alert_cong) auto
    qed
    then have "collect (future_progress_alert t1) kept = collect (future_progress_alert t2) kept"
      by (rule collect_cong)
    with Inr kept show ?thesis by (simp add: check_future_progress_def)
  qed
qed

lemma two_tasks_quiet_rules:
  "check_missing_dates two_tasks = Inr []"
  "check_duration_coherence two_tasks = Inr []"
  "check_progress_range two_tasks = Inr []"
  "check_date_order two_tasks = Inr []"
  "check_orphan_tasks two_tasks = Inr []"
  "check_missing_values two_tasks = Inr []"
  by code_simp+

lemma two_tasks_future_progress:
  "\<not> isl (check_future_progress (19000 * ns_per_day) two_tasks)"
  "length (projr (check_future_progress (19000 * ns_per_day) two_tasks)) = 2"
  "check_future_progress (20000 * ns_per_day) two_tasks = Inr []"
  by code_simp+

text \<open>The two tasks start at different times, so every sort that keeps numpy's promise
  orders them alike, and the two runs differ whatever the sort.\<close>

lemma validate_two_tasks_any_sort:
  assumes "\<forall>ts. sorts_dates argsort ts"
  shows "validate argsort (19000 * ns_per_day) two_tasks \<noteq>
         validate argsort (20000 * ns_per_day) two_tasks"
proof -
  have over: "check_overlapping_tasks argsort two_tasks = Inr (overlap_alerts two_tasks)"
    by (rule overlap_rule_without_ties [OF two_tasks_hyps assms two_tasks_no_ties])
  obtain fp where fp: "check_future_progress (19000 * ns_per_day) two_tasks = Inr fp"
    using two_tasks_future_progress(1)
    by (cases "check_future_progress (19000 * ns_per_day) two_tasks") auto
  with two_tasks_future_progress(2) have "length fp = 2" by simp
  then have "fp \<noteq> []" by auto
  then show ?thesis
    by (simp add: validate_unfold two_tasks_quiet_rules over fp two_tasks_future_progress(3))
qed

text \<open>
  C5, as stated: validation is a function of its input alone, so two runs on the same
  normalized input return the same alerts. The future-progress rule reads the clock:
  on the same two tasks, which start in January 2024 with progress 50, a run on day
  19000 (before they start) and a run on day 20000 (after) return different lists,
  here with the sort of the examples and, by \<open>validate_two_tasks_any_sort\<close>, with any.
\<close>

theorem validate_reads_the_clock:
  "validate stable_argsort (19000 * ns_per_day) two_tasks \<noteq>
   validate stable_argsort (20000 * ns_per_day) two_tasks"
  by (rule validate_two_tasks_any_sort) (simp add: stable_argsort_sorts)

lemma two_tasks_started:
  "\<forall>r\<in>set (rows two_tasks). \<forall>s.
      level_is ''tache'' r \<and> r ''start_date'' = Some (Date s) \<and> \<not> isna (r ''progress'') \<longrightarrow>
      (20000 * ns_per_day < s \<longleftrightarrow> 20300 * ns_per_day < s)"
  by (auto simp: two_tasks_def task_row_def midnight_def ns_per_day_def)

text \<open>
  C5, amended: validation is a function of its input and of the current date. The date
  is read by the future-progress rule alone, and only compared with the start dates of
  the Task rows that have a start date and a progress: two runs on the same input, on
  the dates \<open>t1\<close> and \<open>t2\<close>, return the same result whenever no such row starts after one
  of the two dates and not after the other, in particular on the same date. The result
  is that of the eight rules concatenated in the fixed rule order (the first exception
  in that order, if there is one).
\<close>

theorem validate_date_matters_only_for_future_starts:
  assumes "\<forall>r\<in>set (rows df). \<forall>s.
      level_is ''tache'' r \<and> r ''start_date'' = Some (Date s) \<and> \<not> isna (r ''progress'') \<longrightarrow>
      (t1 < s \<longleftrightarrow> t2 < s)"
  shows "validate argsort t1 df = validate argsort t2 df \<and>
     validate argsort t1 df =
       and_then (check_missing_dates df) (\<lambda>a1.
       and_then (check_duration_coherence df) (\<lambda>a2.
       and_then (check_progress_range df) (\<lambda>a3.
       and_then (check_date_order df) (\<lambda>a4.
       and_then (check_orphan_tasks df) (\<lambda>a5.
       and_then (check_overlapping_tasks argsort df) (\<lambda>a6.
       and_then (check_missing_values df) (\<lambda>a7.
       and_then (check_future_progress t1 df) (\<lambda>a8.
         Inr (a1 @ a2 @ a3 @ a4 @ a5 @ a6 @ a7 @ a8)))))))))"
proof -
  have "check_future_progress t1 df = check_future_progress t2 df"
    by (rule check_future_progress_cong [OF assms])
  then have "validate argsort t1 df = validate argsort t2 df"
    by (simp add: validate_unfold)
  then show ?thesis
    by (simp add: validate_unfold [symmetric])
qed

text \<open>The two tasks started in January 2024: the runs of day 20000 and of day 20300 agree.\<close>

theorem validate_date_matters_only_for_future_starts_witness:
  "(rows two_tasks ! 0) ''start_date'' = Some (Date (19723 * ns_per_day)) \<and>
   (rows two_tasks ! 1) ''start_date'' = Some (Date (19727 * ns_per_day)) \<and>
   validate stable_argsort (20000 * ns_per_day) two_tasks =
   validate stable_argsort (20300 * ns_per_day) two_tasks"
  using validate_date_matters_only_for_future_starts [OF two_tasks_started, of stable_argsort]
  by (simp add: two_tasks_def task_row_def midnight_def)

subsection \<open>Claim C7\<close>

lemma map_of_tally:
  "map_of (tally init a) s =
     (if severity a = s then Some ((case map_of init s of None \<Rightarrow> 0 | Some n \<Rightarrow> n) + 1)
      else map_of init s)"
  by (auto simp: tally_def update_conv')

lemma count_severity_simps:
  "count_severity s [] = 0"
  "count_severity s (a # alerts) = (if severity a = s then 1 else 0) + count_severity s alerts"
  by (simp_all add: count_severity_def)

lemma count_severity_absent: "s \<notin> severity ` set alerts \<Longrightarrow> count_severity s alerts = 0"
  by (induction alerts) (auto simp: count_severity_simps)

lemma map_of_foldl_tally:
  "map_of (foldl tally init alerts) s =
     (if s \<in> severity ` set alerts
      then Some ((case map_of init s of None \<Rightarrow> 0 | Some n \<Rightarrow> n) + count_severity s alerts)
      else map_of init s)"
proof (induction alerts arbitrary: init)
  case Nil
  then show ?case by simp
next
  case (Cons a alerts)
  show ?case
    by (auto simp: Cons.IH map_of_tally count_severity_simps count_severity_absent)
qed

text \<open>On a list in which no severity is the string total, the total is the length of
  the list and each of error, warning, info and of the severities in the list has its
  number of alerts as count; no other key but total exists. On
  \<open>[error, error, warning, info, info, info]\<close> the summary is
  \<open>{error: 2, warning: 1, info: 3, total: 6}\<close>.\<close>

lemma get_summary_counts:
  assumes "\<forall>a\<in>set alerts. severity a \<noteq> ''total''"
  shows "map_of (get_summary alerts) ''total'' = Some (int (length alerts)) \<and>
         (\<forall>s. s \<noteq> ''total'' \<longrightarrow>
            map_of (get_summary alerts) s =
              (if s \<in> {''error'', ''warning'', ''info''} \<union> severity ` set alerts
               then Some (count_severity s alerts) else None)) \<and>
         get_summary (map sev [''error'', ''error'', ''warning'', ''info'', ''info'', ''info'']) =
           [(''error'', 2), (''warning'', 1), (''info'', 3), (''total'', 6)]"
proof -
  from assms have "''total'' \<notin> severity ` set alerts" by auto
  then have "map_of (get_summary alerts) ''total'' = Some (int (length alerts))"
    by (simp add: get_summary_def map_of_foldl_tally)
  moreover have "map_of (get_summary alerts) s =
              (if s \<in> {''error'', ''warning'', ''info''} \<union> severity ` set alerts
               then Some (count_severity s alerts) else None)" if "s \<noteq> ''total''" for s
  proof (cases "s \<in> severity ` set alerts")
    case True
    with that show ?thesis
      by (simp add: get_summary_def map_of_foldl_tally)
  next
    case False
    then have "count_severity s alerts = 0"
      by (rule count_severity_absent)
    with False that show ?thesis
      by (simp add: get_summary_def map_of_foldl_tally)
  qed
  moreover have "get_summary (map sev [''error'', ''error'', ''warning'', ''info'', ''info'', ''info'']) =
           [(''error'', 2), (''warning'', 1), (''info'', 3), (''total'', 6)]"
    by (simp add: get_summary_def tally_def sev_def)
  ultimately show ?thesis by blast
qed

text \<open>
  C7: for every alert list the summary's total is the length of the list, and an alert
  of a severity other than error, warning and info still counts toward it. The code
  keeps the total in the dictionary of the counts, under the key total: for the
  severity fatal it adds a key and the total stays 1, and for the severity total it
  adds 1 to the total itself, which becomes 2 for a list of one alert.
\<close>

theorem severity_total_is_counted_twice:
  "map_of (get_summary [sev ''total'']) ''total'' = Some 2 \<and>
   int (length [sev ''total'']) = 1 \<and>
   map_of (get_summary [sev ''fatal'']) ''total'' = Some 1 \<and>
   map_of (get_summary [sev ''fatal'']) ''fatal'' = Some 1"
  by (simp add: get_summary_def tally_def sev_def)

end
